theory Spec2Isabelle
  imports Complex_Main
begin

section \<open>Data model (app/schemas.py, app/services/audit_runner.py)\<close>

text \<open>
  Python strings are modelled as \<^typ>\<open>string\<close>, one \<^typ>\<open>char\<close> per code point, which
  covers the code points below 256. Python integers are \<^typ>\<open>int\<close>, floats are idealised
  as \<^typ>\<open>real\<close>, and a \<open>datetime\<close> is the number of microseconds since the epoch.
  Field names that are the same in several classes are written qualified
  (\<open>UIFlowResult.status\<close>); \<open>notes\<close>, \<open>id\<close> and \<open>type\<close> carry a prime because the
  plain names are taken.
\<close>

type_synonym datetime = int

datatype AuditStatus = QUEUED | RUNNING | DONE | ERROR

datatype Severity = SevERROR | SevWARNING | SevINFO

record AuditOptions =
  max_pages :: int
  max_depth :: int
  enable_form_submit :: bool
  include_accessibility :: bool
  screenshot_on_error :: bool

record AuditProgress =
  stage :: string
  percent :: int
  current_url :: "string option"
  pages_visited :: int
  errors_found :: int
  message :: "string option"

record ConsoleError =
  message :: string
  location :: "string option"
  page_url :: string
  severity :: Severity
  stack :: "string option"
  timestamp :: "string option"

record NetworkFailure =
  url :: string
  method' :: string
  status :: "int option"
  error :: "string option"
  duration_ms :: "real option"
  page_url :: string
  resource_type :: "string option"

record UIFlowResult =
  page_url :: string
  status :: string
  notes' :: "string option"
  screenshot_path :: "string option"
  load_time_ms :: "real option"

record PageTiming =
  url :: string
  ttfb_ms :: "real option"
  dom_content_loaded_ms :: "real option"
  load_ms :: "real option"

record LargeAsset =
  url :: string
  size_bytes :: int
  type' :: string
  page_url :: string

record SlowEndpoint =
  url :: string
  method' :: string
  duration_ms :: real
  status :: "int option"

record CookieFlagIssue =
  name :: string
  domain :: string
  issues :: "string list"

record SecurityHygiene =
  https_ok :: bool
  headers_present :: "string list"
  headers_missing :: "string list"
  cookie_flags_issues :: "CookieFlagIssue list"

record AccessibilityViolation =
  id' :: string
  impact :: string
  description :: string
  help_url :: "string option"
  nodes_count :: int
  page_url :: string

record CategoryScore =
  category :: string
  score :: int
  max_score :: int
  issues_count :: int

text \<open>The dataclass \<open>AuditState\<close> of audit_runner.py, field by field.\<close>

record AuditState =
  audit_id :: string
  session_id :: string
  url :: string
  options :: AuditOptions
  status :: AuditStatus
  progress :: AuditProgress
  started_at :: datetime
  finished_at :: "datetime option"
  console_errors :: "ConsoleError list"
  network_failures :: "NetworkFailure list"
  ui_flows :: "UIFlowResult list"
  page_timings :: "PageTiming list"
  large_assets :: "LargeAsset list"
  slow_endpoints :: "SlowEndpoint list"
  security_hygiene :: "SecurityHygiene option"
  accessibility_violations :: "AccessibilityViolation list"
  visited_urls :: "string set"
  discovered_urls :: "string set"
  total_requests :: int
  error_message :: "string option"
  artifacts_dir :: string
  screenshots :: "string list"
  preview_image_path :: "string option"
  preview_updated_at :: "real option"

section \<open>Scoring (app/utils/scoring.py)\<close>

definition calculate_score :: "int \<Rightarrow> int \<Rightarrow> int \<Rightarrow> int \<Rightarrow> int \<Rightarrow> int \<Rightarrow> int" where
  "calculate_score console_errors_n network_failures_n ui_errors security_issues
       accessibility_violations_n slow_endpoints_n =
     (let score0 = 100;
          console_penalty = min (console_errors_n * 2) 20;
          score1 = score0 - console_penalty;
          network_penalty = min (network_failures_n * 3) 20;
          score2 = score1 - network_penalty;
          ui_penalty = min (ui_errors * 4) 20;
          score3 = score2 - ui_penalty;
          security_penalty = min (security_issues * 3) 20;
          score4 = score3 - security_penalty;
          a11y_penalty = min accessibility_violations_n 10;
          score5 = score4 - a11y_penalty;
          perf_penalty = min slow_endpoints_n 10;
          score6 = score5 - perf_penalty
      in max 0 score6)"

definition get_grade :: "int \<Rightarrow> string" where
  "get_grade sc =
     (if sc \<ge> 90 then ''A''
      else if sc \<ge> 80 then ''B''
      else if sc \<ge> 70 then ''C''
      else if sc \<ge> 60 then ''D''
      else ''F'')"

section \<open>Report builder (app/services/report_builder.py)\<close>

text \<open>\<open>len(xs)\<close> as a Python integer.\<close>

definition len :: "'a list \<Rightarrow> int" where
  "len xs = int (length xs)"

text \<open>\<open>sum(1 for f in self.audit.ui_flows if f.status == "error")\<close>\<close>

definition count_ui_errors :: "AuditState \<Rightarrow> int" where
  "count_ui_errors audit = len (filter (\<lambda>f. UIFlowResult.status f = ''error'') (ui_flows audit))"

text \<open>
  \<open>_count_security_issues\<close>. A pydantic model defines neither \<open>__bool__\<close> nor \<open>__len__\<close>,
  so \<open>not self.audit.security_hygiene\<close> holds exactly when the field is \<open>None\<close>.
\<close>

definition count_security_issues :: "AuditState \<Rightarrow> int" where
  "count_security_issues audit =
     (case security_hygiene audit of
        None \<Rightarrow> 0
      | Some sh \<Rightarrow>
          (let count0 = 0;
               count1 = (if \<not> https_ok sh then count0 + 2 else count0);
               count2 = count1 + len (headers_missing sh);
               count3 = count2 + len (cookie_flags_issues sh)
           in count3))"

definition calculate_category_scores :: "AuditState \<Rightarrow> CategoryScore list" where
  "calculate_category_scores audit =
     (let console_score = max 0 (20 - len (console_errors audit) * 2);
          c1 = \<lparr>category = ''Console Errors'', score = console_score, max_score = 20,
                issues_count = len (console_errors audit)\<rparr>;
          network_score = max 0 (20 - len (network_failures audit) * 3);
          c2 = \<lparr>category = ''Network/API'', score = network_score, max_score = 20,
                issues_count = len (network_failures audit)\<rparr>;
          ui_errors = count_ui_errors audit;
          ui_score = max 0 (20 - ui_errors * 4);
          c3 = \<lparr>category = ''UI Flows'', score = ui_score, max_score = 20,
                issues_count = ui_errors\<rparr>;
          security_issues = count_security_issues audit;
          security_score = max 0 (20 - security_issues * 3);
          c4 = \<lparr>category = ''Security'', score = security_score, max_score = 20,
                issues_count = security_issues\<rparr>;
          perf_issues = len (slow_endpoints audit) + len (large_assets audit);
          perf_score = max 0 (10 - perf_issues);
          c5 = \<lparr>category = ''Performance'', score = perf_score, max_score = 10,
                issues_count = perf_issues\<rparr>;
          a11y_score = max 0 (10 - len (accessibility_violations audit));
          c6 = \<lparr>category = ''Accessibility'', score = a11y_score, max_score = 10,
                issues_count = len (accessibility_violations audit)\<rparr>
      in [c1, c2, c3, c4, c5, c6])"

text \<open>The \<open>total_score\<close> that \<open>ReportBuilder.build\<close> computes and grades.\<close>

definition build_total_score :: "AuditState \<Rightarrow> int" where
  "build_total_score audit =
     calculate_score (len (console_errors audit)) (len (network_failures audit))
       (count_ui_errors audit) (count_security_issues audit)
       (len (accessibility_violations audit)) (len (slow_endpoints audit))"

section \<open>Rate limiting (app/core/rate_limit.py)\<close>

text \<open>
  \<open>self.requests\<close> is a \<open>defaultdict(list)\<close>: reading a key that is absent yields the
  empty list. \<open>datetime.utcnow()\<close> is the reading of the clock, an argument of the model.
\<close>

record RateLimiter =
  requests_per_minute :: int
  requests :: "string \<rightharpoonup> datetime list"

definition RateLimiter_init :: "int \<Rightarrow> RateLimiter" where
  "RateLimiter_init rpm = \<lparr>requests_per_minute = rpm, requests = Map.empty\<rparr>"

text \<open>\<open>timedelta(minutes=1)\<close> in microseconds.\<close>

definition minute :: int where
  "minute = 60000000"

definition requests_of :: "RateLimiter \<Rightarrow> string \<Rightarrow> datetime list" where
  "requests_of rl ip = (case requests rl ip of None \<Rightarrow> [] | Some ts \<Rightarrow> ts)"

definition cleanup_old_requests :: "RateLimiter \<Rightarrow> string \<Rightarrow> datetime \<Rightarrow> RateLimiter" where
  "cleanup_old_requests rl ip now =
     (let cutoff = now - minute
      in rl\<lparr>requests := (requests rl)(ip \<mapsto> filter (\<lambda>t. t > cutoff) (requests_of rl ip))\<rparr>)"

definition is_allowed :: "RateLimiter \<Rightarrow> string \<Rightarrow> datetime \<Rightarrow> bool \<times> RateLimiter" where
  "is_allowed rl ip now =
     (let rl1 = cleanup_old_requests rl ip now
      in if len (requests_of rl1 ip) \<ge> requests_per_minute rl1 then (False, rl1)
         else (True, rl1\<lparr>requests := (requests rl1)(ip \<mapsto> requests_of rl1 ip @ [now])\<rparr>))"

definition get_remaining :: "RateLimiter \<Rightarrow> string \<Rightarrow> datetime \<Rightarrow> int \<times> RateLimiter" where
  "get_remaining rl ip now =
     (let rl1 = cleanup_old_requests rl ip now
      in (max 0 (requests_per_minute rl1 - len (requests_of rl1 ip)), rl1))"

text \<open>
  A history of the limiter: the calls \<open>is_allowed(ip)\<close> made so far, each with the clock
  reading it saw, answered in order. \<open>serve\<close> returns the answers and the limiter after
  the last call; \<open>admitted\<close> lists the clock readings of the calls from one address that
  were answered \<open>True\<close>.
\<close>

fun serve :: "RateLimiter \<Rightarrow> (string \<times> datetime) list \<Rightarrow> bool list \<times> RateLimiter" where
  "serve rl [] = ([], rl)"
| "serve rl ((ip, now) # calls) =
     (let (ok, rl1) = is_allowed rl ip now;
          (oks, rl2) = serve rl1 calls
      in (ok # oks, rl2))"

definition admitted :: "string \<Rightarrow> (string \<times> datetime) list \<Rightarrow> bool list \<Rightarrow> datetime list" where
  "admitted ip calls oks =
     map (\<lambda>(c, ok). snd c) (filter (\<lambda>(c, ok). fst c = ip \<and> ok) (zip calls oks))"

section \<open>String operations of the Python runtime\<close>

text \<open>\<open>s.startswith(p)\<close>\<close>

definition startswith :: "string \<Rightarrow> string \<Rightarrow> bool" where
  "startswith s p = (take (length p) s = p)"

text \<open>
  \<open>str.lower()\<close> on code points below 256: the ASCII capitals and the Latin-1 capitals
  (U+00C0 to U+00DE without the multiplication sign U+00D7) move up by 32.
\<close>

definition lower_char :: "char \<Rightarrow> char" where
  "lower_char c =
     (let n = (of_char c :: nat)
      in if (65 \<le> n \<and> n \<le> 90) \<or> (192 \<le> n \<and> n \<le> 222 \<and> n \<noteq> 215)
         then char_of (n + 32) else c)"

definition lower :: "string \<Rightarrow> string" where
  "lower s = map lower_char s"

text \<open>
  \<open>str.strip()\<close> removes leading and trailing whitespace; below 256 the whitespace code
  points are 9 to 13, 28 to 32, 133 and 160.
\<close>

definition isspace :: "char \<Rightarrow> bool" where
  "isspace c =
     (let n = (of_char c :: nat)
      in (9 \<le> n \<and> n \<le> 13) \<or> (28 \<le> n \<and> n \<le> 32) \<or> n = 133 \<or> n = 160)"

definition strip :: "string \<Rightarrow> string" where
  "strip s = rev (dropWhile isspace (rev (dropWhile isspace s)))"

text \<open>\<open>str(n)\<close> for an integer: decimal digits, with a minus sign below zero.\<close>

fun str_nat :: "nat \<Rightarrow> string" where
  "str_nat n = (if n < 10 then [char_of (48 + n)] else str_nat (n div 10) @ [char_of (48 + n mod 10)])"

definition str_int :: "int \<Rightarrow> string" where
  "str_int i = (if i < 0 then CHR ''-'' # str_nat (nat (- i)) else str_nat (nat i))"

text \<open>\<open>p in s\<close> for strings: \<open>p\<close> occurs in \<open>s\<close> as a contiguous block.\<close>

fun contains :: "string \<Rightarrow> string \<Rightarrow> bool" where
  "contains [] p = (p = [])"
| "contains (c # cs) p = (startswith (c # cs) p \<or> contains cs p)"

text \<open>\<open>os.path.join(a, b)\<close> on POSIX.\<close>

definition os_path_join :: "string \<Rightarrow> string \<Rightarrow> string" where
  "os_path_join a b =
     (if startswith b ''/'' then b
      else if a = [] \<or> last a = CHR ''/'' then a @ b
      else a @ ''/'' @ b)"

section \<open>Security header probe (app/utils/security_headers.py)\<close>

text \<open>The dictionary \<open>SECURITY_HEADERS\<close>, in insertion order.\<close>

definition SECURITY_HEADERS :: "(string \<times> string) list" where
  "SECURITY_HEADERS =
     [(''Strict-Transport-Security'', ''HSTS - Enforces HTTPS connections''),
      (''Content-Security-Policy'', ''CSP - Prevents XSS and injection attacks''),
      (''X-Content-Type-Options'', ''Prevents MIME type sniffing''),
      (''X-Frame-Options'', ''Prevents clickjacking''),
      (''Referrer-Policy'', ''Controls referrer information''),
      (''Permissions-Policy'', ''Controls browser features'')]"

text \<open>
  What the \<open>async with\<close> block of \<open>check_security_headers\<close> can do. Building the
  client, entering the block or the HEAD request may raise, \<open>httpx.TimeoutException\<close> or
  any other exception, before there is a response (\<open>Inl\<close>). Otherwise there is a
  response, of which the function reads the header names only, the loop over the
  tracked headers runs (nothing in it raises), and then leaving the block, which closes
  the client, may raise in turn: the second component of \<open>Inr\<close>. The \<open>try\<close> encloses
  all of this.
\<close>

datatype http_failure = TimeoutException string | OtherException string

record HeadersResult =
  present :: "string list"
  missing :: "string list"

text \<open>The body of the \<open>for header, description in SECURITY_HEADERS.items()\<close> loop.\<close>

fun header_loop :: "string list \<Rightarrow> (string \<times> string) list \<Rightarrow> HeadersResult \<Rightarrow> HeadersResult" where
  "header_loop headers [] r = r"
| "header_loop headers ((header, descr) # items) r =
     (let header_lower = lower header;
          found = (\<exists>h \<in> set headers. lower h = header_lower)
      in header_loop headers items
           (if found then r\<lparr>present := present r @ [header]\<rparr>
            else r\<lparr>missing := missing r @ [header]\<rparr>))"

text \<open>
  The two handlers of \<open>check_security_headers\<close>: each logs a warning and rebinds
  \<open>missing\<close> to all the tracked headers; \<open>present\<close> is left as it is.
\<close>

definition on_exception :: "http_failure \<Rightarrow> HeadersResult \<Rightarrow> HeadersResult" where
  "on_exception failure r =
     (case failure of
        TimeoutException e \<Rightarrow> r\<lparr>missing := map fst SECURITY_HEADERS\<rparr>
      | OtherException e \<Rightarrow> r\<lparr>missing := map fst SECURITY_HEADERS\<rparr>)"

definition check_security_headers ::
  "(string \<Rightarrow> http_failure + string list \<times> http_failure option) \<Rightarrow> string \<Rightarrow> HeadersResult" where
  "check_security_headers head target =
     (let r0 = \<lparr>present = [], missing = []\<rparr>
      in case head target of
           Inl failure \<Rightarrow> on_exception failure r0
         | Inr (headers, on_exit) \<Rightarrow>
             (let r1 = header_loop headers SECURITY_HEADERS r0
              in case on_exit of
                   None \<Rightarrow> r1
                 | Some failure \<Rightarrow> on_exception failure r1))"

section \<open>The audit store (class AuditManager of audit_runner.py)\<close>

text \<open>\<open>self._audits\<close>, a dictionary from audit id to the audit record.\<close>

type_synonym AuditManager = "string \<rightharpoonup> AuditState"

text \<open>
  \<open>create_audit\<close>. The fresh \<open>uuid4\<close>, the clock reading taken by the \<open>started_at\<close> default
  and the setting \<open>ARTIFACTS_DIR\<close> are arguments; every other field takes the default of
  the dataclass. The directory creation leaves the store untouched.
\<close>

definition create_audit ::
  "AuditManager \<Rightarrow> string \<Rightarrow> datetime \<Rightarrow> string \<Rightarrow> string \<Rightarrow> string \<Rightarrow> AuditOptions
     \<Rightarrow> AuditState \<times> AuditManager" where
  "create_audit audits uuid4 now ARTIFACTS_DIR sid target opts =
     (let aid = uuid4;
          adir = os_path_join (os_path_join ARTIFACTS_DIR ''audits'') aid;
          audit = \<lparr>audit_id = aid, session_id = sid, url = target, options = opts,
                   status = QUEUED,
                   progress = \<lparr>stage = ''initializing'', percent = 0, current_url = None,
                               pages_visited = 0, errors_found = 0, message = None\<rparr>,
                   started_at = now, finished_at = None,
                   console_errors = [], network_failures = [], ui_flows = [],
                   page_timings = [], large_assets = [], slow_endpoints = [],
                   security_hygiene = None, accessibility_violations = [],
                   visited_urls = {}, discovered_urls = {}, total_requests = 0,
                   error_message = None, artifacts_dir = adir, screenshots = [],
                   preview_image_path = None, preview_updated_at = None\<rparr>
      in (audit, audits(aid \<mapsto> audit)))"

definition get_audit :: "AuditManager \<Rightarrow> string \<Rightarrow> AuditState option" where
  "get_audit audits aid = audits aid"

text \<open>
  \<open>update_progress\<close>: nothing happens for an unknown id; otherwise a new
  \<open>AuditProgress\<close> is built and replaces the progress record of the stored audit as a
  whole. The field \<open>percent\<close> is declared with \<open>ge=0, le=100\<close>, so building the record
  raises a validation error for a percent outside that range (\<open>Inl\<close>, with the text of
  the error left abstract).
\<close>

definition update_progress ::
  "AuditManager \<Rightarrow> string \<Rightarrow> string \<Rightarrow> int \<Rightarrow> string option \<Rightarrow> string option
     \<Rightarrow> string + AuditManager" where
  "update_progress audits aid stg pct cur msg =
     (case audits aid of
        None \<Rightarrow> Inr audits
      | Some audit \<Rightarrow>
          if pct < 0 \<or> pct > 100 then Inl ''ValidationError: percent''
          else Inr (audits(aid \<mapsto> audit\<lparr>progress :=
                 \<lparr>stage = stg, percent = pct, current_url = cur,
                  pages_visited = int (card (visited_urls audit)),
                  errors_found = len (console_errors audit) + len (network_failures audit),
                  AuditProgress.message = msg\<rparr>\<rparr>)))"

section \<open>The world the runner talks to\<close>

text \<open>
  The runner awaits the browser, the network and the clock. Each such call either raises,
  modelled as \<open>Inl\<close> of the exception's text \<open>str(e)\<close>, or returns a value (\<open>Inr\<close>). What
  they answer is not decided by the repository, so the answers are the fields of a
  record \<open>world\<close>, and every property below holds for every world unless it says
  otherwise. \<open>urlparse\<close> is the function of the Python standard library; \<open>list_of_set\<close>
  is the order in which \<open>list(s)\<close> enumerates a set.
\<close>

record ParseResult =
  scheme :: string
  netloc :: string
  path :: string
  params :: string
  query :: string
  fragment :: string

text \<open>
  A cookie as \<open>context.cookies()\<close> returns it: \<open>secure\<close> and \<open>httpOnly\<close> hold the truth
  value of \<open>cookie.get(...)\<close>, the other three are \<open>None\<close> when the key is absent.
\<close>

record Cookie =
  cookie_name :: "string option"
  cookie_domain :: "string option"
  secure :: bool
  httpOnly :: bool
  sameSite :: "string option"

text \<open>One entry of the \<open>violations\<close> array that the in-page scanner returns.\<close>

record RawViolation =
  raw_id :: string
  raw_impact :: "string option"
  raw_description :: string
  raw_helpUrl :: "string option"
  raw_nodes :: int

record world =
  urlparse :: "string \<Rightarrow> string + ParseResult"
  list_of_set :: "string set \<Rightarrow> string list"
  create_authenticated_context :: "string \<Rightarrow> string + unit"
  new_page :: "string + unit"
  goto_initial :: "string + int option"
  load_time_initial :: real
  goto_page :: "string \<Rightarrow> string + int option"
  load_time_page :: "string \<Rightarrow> real"
  probe_safe_interactions :: "string \<Rightarrow> string option"
  page_content :: "string \<Rightarrow> string + string"
  page_screenshot :: "string \<Rightarrow> string + unit"
  evaluate_links_initial :: "string + string list"
  evaluate_links_page :: "string \<Rightarrow> string + string list"
  capture_frame :: "string \<Rightarrow> string \<Rightarrow> real option"
  head_request :: "string \<Rightarrow> http_failure + string list \<times> http_failure option"
  context_cookies :: "string + Cookie list"
  axe_violations :: "string + RawViolation list"
  utcnow :: datetime

text \<open>
  The fields in the order of their use: \<open>goto_initial\<close> is the first navigation (the
  response status, or \<open>None\<close> when \<open>goto\<close> returns no response); \<open>goto_page u\<close>,
  \<open>page_content u\<close>, \<open>page_screenshot u\<close> and \<open>evaluate_links_page u\<close> are the calls made
  while page \<open>u\<close> is audited; \<open>capture_frame reason u\<close> is the clock reading stored by
  \<open>_capture_live_preview\<close> when it writes a frame, and \<open>None\<close> when it returns early or
  its screenshot fails; \<open>axe_violations\<close> stands for the navigation, the script
  injection and the evaluation of the accessibility phase, which share one handler;
  \<open>utcnow\<close> is the clock reading at completion. The callbacks registered by
  \<open>_setup_event_listeners\<close> run between the runner's own steps and write only
  \<open>console_errors\<close>, \<open>network_failures\<close>, \<open>slow_endpoints\<close>, \<open>large_assets\<close>,
  \<open>total_requests\<close> and the preview fields; the runner carries these lists as they are.
\<close>

section \<open>The audit runner (class AuditRunner of audit_runner.py)\<close>

record AuditRunner =
  base_domain :: string
  preview_path :: string

text \<open>\<open>AuditRunner.__init__\<close>; \<open>urlparse\<close> raises \<open>ValueError\<close> on some inputs.\<close>

definition AuditRunner_init :: "world \<Rightarrow> AuditState \<Rightarrow> string + AuditRunner" where
  "AuditRunner_init w audit =
     (case urlparse w (url audit) of
        Inl e \<Rightarrow> Inl e
      | Inr parsed \<Rightarrow>
          Inr \<lparr>base_domain = netloc parsed,
               preview_path = os_path_join (artifacts_dir audit) ''preview_latest.jpg''\<rparr>)"

text \<open>
  The runner's calls \<open>audit_manager.update_progress(self.audit.audit_id, ...)\<close>. The
  runner's audit is the object that \<open>run_audit_async\<close> took out of the store under that
  id, so the update is evaluated in a store that holds the audit under its own id and
  lands on the runner's audit; an exception of the update is the exception of the call.
\<close>

definition report_progress ::
  "AuditState \<Rightarrow> string \<Rightarrow> int \<Rightarrow> string option \<Rightarrow> string option \<Rightarrow> string + AuditState" where
  "report_progress a stg pct cur msg =
     (case update_progress [audit_id a \<mapsto> a] (audit_id a) stg pct cur msg of
        Inl e \<Rightarrow> Inl e
      | Inr audits \<Rightarrow>
          (case audits (audit_id a) of
             None \<Rightarrow> Inr a
           | Some a' \<Rightarrow> Inr a'))"

text \<open>
  The functions of the runner return the states that the audit record passes through,
  in order, one for each stretch of code that runs without an await in it, and with
  them the exception that escapes from the function, if one does. \<open>final a t\<close> is the
  record after the states \<open>t\<close> of a function that started in \<open>a\<close>.
\<close>

type_synonym outcome = "AuditState list \<times> string option"

definition final :: "AuditState \<Rightarrow> AuditState list \<Rightarrow> AuditState" where
  "final a t = last (a # t)"

definition capture_live_preview :: "world \<Rightarrow> AuditRunner \<Rightarrow> string \<Rightarrow> string \<Rightarrow> AuditState \<Rightarrow> AuditState" where
  "capture_live_preview w r reason cur a =
     (case capture_frame w reason cur of
        None \<Rightarrow> a
      | Some now \<Rightarrow> a\<lparr>preview_image_path := Some (preview_path r), preview_updated_at := Some now\<rparr>)"

definition check_initial_availability :: "world \<Rightarrow> AuditRunner \<Rightarrow> AuditState \<Rightarrow> outcome" where
  "check_initial_availability w r a =
     (case report_progress a ''checking_availability'' 10 (Some (url a)) None of
        Inl e \<Rightarrow> ([], Some e)
      | Inr s1 \<Rightarrow>
          (case goto_initial w of
             Inl e \<Rightarrow>
               ([s1,
                 s1\<lparr>ui_flows := ui_flows s1 @
                      [\<lparr>UIFlowResult.page_url = url s1, UIFlowResult.status = ''error'',
                        notes' = Some (''Failed to load: '' @ e),
                        screenshot_path = None, load_time_ms = None\<rparr>]\<rparr>], None)
           | Inr response \<Rightarrow>
               (let load_time = load_time_initial w;
                    s2 = capture_live_preview w r ''initial'' (url s1) s1;
                    (st, nt) =
                      (case response of
                         None \<Rightarrow> (''ok'', None)
                       | Some code \<Rightarrow>
                           if code \<ge> 400 then (''error'', Some (''HTTP '' @ str_int code))
                           else if code \<ge> 300 then (''warning'', Some (''Redirect: HTTP '' @ str_int code))
                           else (''ok'', None));
                    s3 = s2\<lparr>page_timings := page_timings s2 @
                              [\<lparr>PageTiming.url = url s2, ttfb_ms = None,
                                dom_content_loaded_ms = Some load_time, load_ms = None\<rparr>],
                            ui_flows := ui_flows s2 @
                              [\<lparr>UIFlowResult.page_url = url s2, UIFlowResult.status = st, notes' = nt,
                                screenshot_path = None, load_time_ms = Some load_time\<rparr>],
                            visited_urls := insert (url s2) (visited_urls s2)\<rparr>
                in ([s1, s2, s3], None))))"

text \<open>The loop \<open>for link in links\<close> of \<open>_discover_links\<close>; an exception of \<open>urlparse\<close> ends it.\<close>

fun discover_loop :: "world \<Rightarrow> AuditRunner \<Rightarrow> string list \<Rightarrow> AuditState \<Rightarrow> AuditState" where
  "discover_loop w r [] a = a"
| "discover_loop w r (link # links) a =
     (case urlparse w link of
        Inl e \<Rightarrow> a
      | Inr parsed \<Rightarrow>
          discover_loop w r links
            (if netloc parsed = base_domain r \<or> netloc parsed = [] then
               (let clean_url = scheme parsed @ ''://'' @ netloc parsed @ path parsed
                in if clean_url \<noteq> [] \<and> clean_url \<notin> visited_urls a
                   then a\<lparr>discovered_urls := insert clean_url (discovered_urls a)\<rparr>
                   else a)
             else a))"

definition discover_links :: "world \<Rightarrow> AuditRunner \<Rightarrow> string + string list \<Rightarrow> AuditState \<Rightarrow> AuditState" where
  "discover_links w r evaluated a =
     (case evaluated of
        Inl e \<Rightarrow> a
      | Inr links \<Rightarrow> discover_loop w r links a)"

text \<open>
  \<open>ERROR_REGEX\<close> is the alternation of nine literal phrases, compiled with
  \<open>re.IGNORECASE\<close>; none of them holds a character that is special in a regular
  expression, so \<open>ERROR_REGEX.search(content)\<close> finds a match exactly when one of the
  phrases occurs in the content with letter case ignored.
\<close>

definition ERROR_PATTERNS :: "string list" where
  "ERROR_PATTERNS =
     [''something went wrong'', ''error occurred'', ''page not found'', ''404'',
      ''500 internal server error'', ''access denied'', ''forbidden'', ''oops'',
      ''unexpected error'']"

definition ERROR_REGEX_search :: "string \<Rightarrow> bool" where
  "ERROR_REGEX_search content = (\<exists>p \<in> set ERROR_PATTERNS. contains (lower content) p)"

text \<open>
  \<open>getattr(self.audit.options, "check_ui_flows", False)\<close>: the class \<open>AuditOptions\<close>
  declares no field of that name and ignores unknown keys, so the default is what
  \<open>getattr\<close> returns.
\<close>

definition check_ui_flows :: "AuditOptions \<Rightarrow> bool" where
  "check_ui_flows opts = False"

definition take_screenshot :: "world \<Rightarrow> string \<Rightarrow> AuditState \<Rightarrow> string option \<times> AuditState" where
  "take_screenshot w u a =
     (let filename = ''screenshot_'' @ str_int (len (screenshots a)) @ ''.png'';
          p = os_path_join (artifacts_dir a) filename
      in case page_screenshot w u of
           Inl e \<Rightarrow> (None, a)
         | Inr ok \<Rightarrow> (Some p, a\<lparr>screenshots := screenshots a @ [p]\<rparr>))"

text \<open>
  The status and the notes that \<open>_audit_page\<close> derives from the rendered content and the
  response (lines 503 to 520): the blank test first, then the error phrases, then the
  HTTP status.
\<close>

definition page_verdict :: "string \<Rightarrow> int option \<Rightarrow> string \<times> string option" where
  "page_verdict content response =
     (let has_error = ERROR_REGEX_search content;
          is_blank = (len (strip content) < 100)
      in if is_blank then (''error'', Some ''Blank or nearly empty page'')
         else if has_error then (''warning'', Some ''Page contains error patterns'')
         else (case response of
                 Some code \<Rightarrow>
                   if code \<ge> 400 then (''error'', Some (''HTTP '' @ str_int code))
                   else (''ok'', None)
               | None \<Rightarrow> (''ok'', None)))"

text \<open>\<open>notes = f"{notes + ' | ' if notes else ''}{interaction_notes}"\<close>, under \<open>if interaction_notes\<close>.\<close>

definition append_interaction_notes :: "string option \<Rightarrow> string option \<Rightarrow> string option" where
  "append_interaction_notes nt interaction_notes =
     (case interaction_notes of
        None \<Rightarrow> nt
      | Some i \<Rightarrow>
          if i = [] then nt
          else Some ((case nt of None \<Rightarrow> [] | Some n \<Rightarrow> if n = [] then [] else n @ '' | '') @ i))"

definition audit_page :: "world \<Rightarrow> AuditRunner \<Rightarrow> string \<Rightarrow> AuditState \<Rightarrow> AuditState list" where
  "audit_page w r u a =
     (case goto_page w u of
        Inl e \<Rightarrow>
          [a\<lparr>ui_flows := ui_flows a @
               [\<lparr>UIFlowResult.page_url = u, UIFlowResult.status = ''error'',
                 notes' = Some (''Failed: '' @ e), screenshot_path = None, load_time_ms = None\<rparr>]\<rparr>]
      | Inr response \<Rightarrow>
          (let load_time = load_time_page w u;
               interaction_notes =
                 (if check_ui_flows (options a) then probe_safe_interactions w u else None);
               s1 = a\<lparr>page_timings := page_timings a @
                        [\<lparr>PageTiming.url = u, ttfb_ms = None,
                          dom_content_loaded_ms = Some load_time, load_ms = None\<rparr>]\<rparr>
           in case page_content w u of
                Inl e \<Rightarrow>
                  [s1,
                   s1\<lparr>ui_flows := ui_flows s1 @
                        [\<lparr>UIFlowResult.page_url = u, UIFlowResult.status = ''error'',
                          notes' = Some (''Failed: '' @ e), screenshot_path = None,
                          load_time_ms = None\<rparr>]\<rparr>]
              | Inr content \<Rightarrow>
                  (let (st, nt) = page_verdict content response;
                       (shot, s2) =
                         (if st \<noteq> ''ok'' \<and> screenshot_on_error (options s1)
                          then take_screenshot w u s1 else (None, s1));
                       nt2 = append_interaction_notes nt interaction_notes;
                       s3 = s2\<lparr>ui_flows := ui_flows s2 @
                                [\<lparr>UIFlowResult.page_url = u, UIFlowResult.status = st,
                                  notes' = nt2, screenshot_path = shot,
                                  load_time_ms = Some load_time\<rparr>]\<rparr>;
                       s4 = discover_links w r (evaluate_links_page w u) s3;
                       s5 = capture_live_preview w r ''audit_page'' u s4
                   in [s1, s2, s3, s4, s5])))"

text \<open>
  \<open>xs[:n]\<close>: the first \<open>n\<close> elements, and for a negative \<open>n\<close> all but the last \<open>-n\<close>.
\<close>

definition py_slice_to :: "'a list \<Rightarrow> int \<Rightarrow> 'a list" where
  "py_slice_to xs n = (if n \<ge> 0 then take (nat n) xs else take (length xs - nat (- n)) xs)"

text \<open>
  The loop \<open>for i, url in enumerate(pages_to_visit)\<close> of \<open>_crawl_and_audit\<close>. The percent
  is \<open>20 + int((i / max(total_pages, 1)) * 60)\<close>, computed by the source in floating point
  and here exactly.
\<close>

fun audit_pages :: "world \<Rightarrow> AuditRunner \<Rightarrow> int \<Rightarrow> int \<Rightarrow> string list \<Rightarrow> AuditState \<Rightarrow> outcome" where
  "audit_pages w r total_pages i [] a = ([], None)"
| "audit_pages w r total_pages i (u # us) a =
     (let pct = 20 + (i * 60) div (max total_pages 1)
      in case report_progress a ''auditing_pages'' pct (Some u)
                (Some (''Checking page '' @ str_int (i + 1) @ ''/'' @ str_int total_pages)) of
           Inl e \<Rightarrow> ([], Some e)
         | Inr s1 \<Rightarrow>
             (let t = audit_page w r u s1;
                  s2 = final s1 t;
                  s3 = s2\<lparr>visited_urls := insert u (visited_urls s2)\<rparr>;
                  (rest, raised) = audit_pages w r total_pages (i + 1) us s3
              in (s1 # t @ [s3] @ rest, raised)))"

definition pages_to_visit :: "world \<Rightarrow> AuditState \<Rightarrow> string list" where
  "pages_to_visit w a =
     py_slice_to (list_of_set w (discovered_urls a - visited_urls a)) (max_pages (options a) - 1)"

definition crawl_and_audit :: "world \<Rightarrow> AuditRunner \<Rightarrow> AuditState \<Rightarrow> outcome" where
  "crawl_and_audit w r a =
     (case report_progress a ''crawling'' 20 None (Some ''Discovering pages...'') of
        Inl e \<Rightarrow> ([], Some e)
      | Inr s1 \<Rightarrow>
          (let s2 = discover_links w r (evaluate_links_initial w) s1;
               pages = pages_to_visit w s2;
               total_pages = len pages;
               (t, raised) = audit_pages w r total_pages 0 pages s2
           in ([s1, s2] @ t, raised)))"

text \<open>The cookie loop of \<open>_check_security_hygiene\<close>.\<close>

definition cookie_flag_issues :: "Cookie \<Rightarrow> string list" where
  "cookie_flag_issues cookie =
     (if \<not> secure cookie then [''Missing Secure flag''] else []) @
     (if \<not> httpOnly cookie then [''Missing HttpOnly flag''] else []) @
     (if sameSite cookie = None \<or> sameSite cookie = Some [] \<or> sameSite cookie = Some ''None''
      then [''SameSite not set or None''] else [])"

fun cookie_loop :: "Cookie list \<Rightarrow> CookieFlagIssue list \<Rightarrow> CookieFlagIssue list" where
  "cookie_loop [] cookie_issues = cookie_issues"
| "cookie_loop (cookie # cookies) cookie_issues =
     (let found = cookie_flag_issues cookie
      in cookie_loop cookies
           (if found \<noteq> []
            then cookie_issues @
                 [\<lparr>name = (case cookie_name cookie of None \<Rightarrow> ''unknown'' | Some n \<Rightarrow> n),
                   domain = (case cookie_domain cookie of None \<Rightarrow> [] | Some d \<Rightarrow> d),
                   issues = found\<rparr>]
            else cookie_issues))"

definition check_security_hygiene :: "world \<Rightarrow> AuditState \<Rightarrow> outcome" where
  "check_security_hygiene w a =
     (case report_progress a ''security_check'' 85 None (Some ''Checking security hygiene...'') of
        Inl e \<Rightarrow> ([], Some e)
      | Inr s1 \<Rightarrow>
          (let https = startswith (url s1) ''https://'';
               headers_result = check_security_headers (head_request w) (url s1);
               cookie_issues =
                 (case context_cookies w of
                    Inl e \<Rightarrow> []
                  | Inr cookies \<Rightarrow> cookie_loop cookies []);
               s2 = s1\<lparr>security_hygiene := Some
                      \<lparr>https_ok = https, headers_present = present headers_result,
                       headers_missing = missing headers_result,
                       cookie_flags_issues = cookie_issues\<rparr>\<rparr>
           in ([s1, s2], None)))"

definition to_violation :: "string \<Rightarrow> RawViolation \<Rightarrow> AccessibilityViolation" where
  "to_violation target v =
     \<lparr>id' = raw_id v,
      impact = (case raw_impact v of None \<Rightarrow> ''moderate'' | Some i \<Rightarrow> if i = [] then ''moderate'' else i),
      description = raw_description v,
      help_url = raw_helpUrl v,
      nodes_count = raw_nodes v,
      AccessibilityViolation.page_url = target\<rparr>"

definition run_accessibility_checks :: "world \<Rightarrow> AuditState \<Rightarrow> outcome" where
  "run_accessibility_checks w a =
     (if \<not> include_accessibility (options a) then ([], None)
      else
        (case report_progress a ''accessibility_check'' 90 None
                (Some ''Running accessibility checks...'') of
           Inl e \<Rightarrow> ([], Some e)
         | Inr s1 \<Rightarrow>
             (case axe_violations w of
                Inl e \<Rightarrow> ([s1], None)
              | Inr violations \<Rightarrow>
                  ([s1,
                    s1\<lparr>accessibility_violations :=
                         accessibility_violations s1 @ map (to_violation (url s1)) violations\<rparr>],
                   None))))"

text \<open>
  The handler \<open>except Exception as e\<close> of \<open>run\<close>. An exception of its own progress
  update leaves \<open>run\<close> with the record as the two assignments made it.
\<close>

definition run_failed :: "string \<Rightarrow> AuditState \<Rightarrow> AuditState list" where
  "run_failed e a =
     (let s1 = a\<lparr>status := ERROR, error_message := Some e\<rparr>
      in case report_progress s1 ''error'' 0 None (Some (''Audit failed: '' @ e)) of
           Inl e' \<Rightarrow> [s1]
         | Inr s2 \<Rightarrow> [s1, s2])"

text \<open>The finalisation at the end of the \<open>try\<close> block of \<open>run\<close>.\<close>

definition run_complete :: "world \<Rightarrow> AuditState \<Rightarrow> outcome" where
  "run_complete w a =
     (let s1 = a\<lparr>status := DONE, finished_at := Some (utcnow w)\<rparr>
      in case report_progress s1 ''complete'' 100 None
                (Some (''Audit complete. Visited '' @ str_int (int (card (visited_urls s1))) @ '' pages.'')) of
           Inl e \<Rightarrow> ([s1], Some e)
         | Inr s2 \<Rightarrow> ([s1, s2], None))"

text \<open>
  One function awaited after another: the second starts in the record that the first
  left, unless the first raised.
\<close>

definition and_then :: "AuditState \<Rightarrow> outcome \<Rightarrow> (AuditState \<Rightarrow> outcome) \<Rightarrow> outcome" where
  "and_then a first second =
     (case first of
        (t, Some e) \<Rightarrow> (t, Some e)
      | (t, None) \<Rightarrow> (case second (final a t) of (t', raised) \<Rightarrow> (t @ t', raised)))"

text \<open>The four phases that \<open>run\<close> awaits in turn once the page is open.\<close>

definition run_phases :: "world \<Rightarrow> AuditRunner \<Rightarrow> AuditState \<Rightarrow> outcome" where
  "run_phases w r a =
     and_then a
       (and_then a
          (and_then a (check_initial_availability w r a) (crawl_and_audit w r))
          (check_security_hygiene w))
       (run_accessibility_checks w)"

text \<open>
  The \<open>try\<close> block of \<open>run\<close>. Registering the listeners with \<open>page.on\<close> is local
  bookkeeping and does not appear.
\<close>

definition run_body :: "world \<Rightarrow> AuditRunner \<Rightarrow> AuditState \<Rightarrow> outcome" where
  "run_body w r a =
     (let a1 = a\<lparr>status := RUNNING\<rparr>
      in case report_progress a1 ''starting'' 5 None None of
           Inl e \<Rightarrow> ([a1], Some e)
         | Inr s1 \<Rightarrow>
             (case create_authenticated_context w (session_id s1) of
                Inl e \<Rightarrow> ([a1, s1], Some e)
              | Inr context \<Rightarrow>
                  (case new_page w of
                     Inl e \<Rightarrow> ([a1, s1], Some e)
                   | Inr page \<Rightarrow>
                       and_then a1 (and_then a1 ([a1, s1], None) (run_phases w r))
                         (run_complete w))))"

text \<open>
  \<open>run\<close>: the \<open>try\<close> block, and the handler when an exception escapes from it. The
  cleanup of the \<open>finally\<close> block does not touch the audit record.
\<close>

definition run :: "world \<Rightarrow> AuditRunner \<Rightarrow> AuditState \<Rightarrow> AuditState list" where
  "run w r a =
     (case run_body w r a of
        (t, None) \<Rightarrow> t
      | (t, Some e) \<Rightarrow> t @ run_failed e (final a t))"

text \<open>
  \<open>run_audit_async\<close>: an unknown id, or a target that \<open>urlparse\<close> rejects when the runner
  is constructed, leaves the audit as it is.
\<close>

definition run_audit_async :: "world \<Rightarrow> AuditManager \<Rightarrow> string \<Rightarrow> AuditState list" where
  "run_audit_async w audits aid =
     (case get_audit audits aid of
        None \<Rightarrow> []
      | Some audit \<Rightarrow>
          (case AuditRunner_init w audit of
             Inl e \<Rightarrow> []
           | Inr runner \<Rightarrow> run w runner audit))"

text \<open>
  The life of one audit as the endpoint \<open>/api/audits/run\<close> starts it: the record that
  \<open>create_audit\<close> stores, followed by the states that the background task
  \<open>run_audit_async\<close> takes it through.
\<close>

definition audit_history ::
  "world \<Rightarrow> AuditManager \<Rightarrow> string \<Rightarrow> datetime \<Rightarrow> string \<Rightarrow> string \<Rightarrow> string \<Rightarrow> AuditOptions
     \<Rightarrow> AuditState list" where
  "audit_history w audits uuid4 now ARTIFACTS_DIR sid target opts =
     (let (audit, audits') = create_audit audits uuid4 now ARTIFACTS_DIR sid target opts
      in audit # run_audit_async w audits' (audit_id audit))"

section \<open>Notions used to state the properties\<close>

text \<open>The fields of the audit record that no phase of the runner writes, only \<open>run\<close> itself.\<close>

definition core ::
  "AuditState \<Rightarrow> AuditStatus \<times> datetime option \<times> string option \<times> AuditOptions \<times> string \<times> string \<times> string" where
  "core a = (status a, finished_at a, error_message a, options a, url a, session_id a, artifacts_dir a)"

text \<open>
  A URL as \<open>_discover_links\<close> builds it: \<open>scheme://netloc/path\<close> put together from the
  parse of some link whose netloc is the base domain or empty, the params, the query
  and the fragment of the parse left out.
\<close>

definition from_link :: "world \<Rightarrow> string \<Rightarrow> string \<Rightarrow> bool" where
  "from_link w bd u \<longleftrightarrow>
     (\<exists>link parsed. urlparse w link = Inr parsed
        \<and> (netloc parsed = bd \<or> netloc parsed = [])
        \<and> u = scheme parsed @ ''://'' @ netloc parsed @ path parsed)"

section \<open>Example worlds\<close>

text \<open>
  A small site for the examples: the target \<open>https://example.test/app?tab=1\<close>, whose
  page links to \<open>/about#team\<close> and to a telephone number, and the page \<open>/about\<close>, which
  links back. \<open>example_urlparse\<close> answers on these links as \<open>urllib.parse.urlparse\<close>
  does; no other link is parsed in the examples.
\<close>

definition example_target :: string where
  "example_target = ''https://example.test/app?tab=1''"

definition example_urlparse :: "string \<Rightarrow> string + ParseResult" where
  "example_urlparse link =
     (if link = ''https://example.test/app?tab=1'' then
        Inr \<lparr>scheme = ''https'', netloc = ''example.test'', path = ''/app'', params = [],
             query = ''tab=1'', fragment = []\<rparr>
      else if link = ''https://example.test/about#team'' then
        Inr \<lparr>scheme = ''https'', netloc = ''example.test'', path = ''/about'', params = [],
             query = [], fragment = ''team''\<rparr>
      else if link = ''https://example.test/about'' then
        Inr \<lparr>scheme = ''https'', netloc = ''example.test'', path = ''/about'', params = [],
             query = [], fragment = []\<rparr>
      else if link = ''tel:+15551234'' then
        Inr \<lparr>scheme = ''tel'', netloc = [], path = ''+15551234'', params = [],
             query = [], fragment = []\<rparr>
      else if link = ''tel://+15551234'' then
        Inr \<lparr>scheme = ''tel'', netloc = ''+15551234'', path = [], params = [],
             query = [], fragment = []\<rparr>
      else Inl ''ValueError'')"

definition example_about_content :: string where
  "example_about_content =
     ''<html><head><title>About us</title></head><body><h1>About</h1>'' @
     ''<p>We build dependable software for small teams.</p><a href=/app?tab=1>App</a></body></html>''"

definition example_options :: AuditOptions where
  "example_options =
     \<lparr>max_pages = 20, max_depth = 2, enable_form_submit = False,
      include_accessibility = True, screenshot_on_error = True\<rparr>"

text \<open>The same options with the crawl limited to the target.\<close>

definition one_page_options :: AuditOptions where
  "one_page_options = example_options\<lparr>max_pages := 1\<rparr>"

text \<open>A world in which every call succeeds.\<close>

definition example_world :: world where
  "example_world =
     \<lparr>urlparse = example_urlparse,
      list_of_set = (\<lambda>S. filter (\<lambda>u. u \<in> S) [''https://example.test/about'', ''tel://+15551234'']),
      create_authenticated_context = (\<lambda>sid. Inr ()),
      new_page = Inr (),
      goto_initial = Inr (Some 200),
      load_time_initial = 120,
      goto_page = (\<lambda>u. if u = ''https://example.test/about'' then Inr (Some 200)
                       else Inl ''net::ERR_ABORTED''),
      load_time_page = (\<lambda>u. 80),
      probe_safe_interactions = (\<lambda>u. None),
      page_content = (\<lambda>u. Inr example_about_content),
      page_screenshot = (\<lambda>u. Inr ()),
      evaluate_links_initial = Inr [''https://example.test/about#team'', ''tel:+15551234''],
      evaluate_links_page = (\<lambda>u. Inr [''https://example.test/app?tab=1'']),
      capture_frame = (\<lambda>reason u. None),
      head_request = (\<lambda>u. Inr ([''content-security-policy'', ''x-frame-options''], None)),
      context_cookies = Inr [],
      axe_violations = Inr [],
      utcnow = 1000000\<rparr>"

text \<open>
  A world in which the context and the page are there and every other call of the
  runner fails.
\<close>

definition failing_world :: world where
  "failing_world =
     example_world
       \<lparr>goto_initial := Inl ''Timeout 60000ms exceeded'',
        goto_page := (\<lambda>u. Inl ''Timeout 60000ms exceeded''),
        page_content := (\<lambda>u. Inl ''Target closed''),
        page_screenshot := (\<lambda>u. Inl ''Target closed''),
        evaluate_links_initial := Inl ''Execution context was destroyed'',
        evaluate_links_page := (\<lambda>u. Inl ''Execution context was destroyed''),
        head_request := (\<lambda>u. Inl (TimeoutException ''timed out'')),
        context_cookies := Inl ''Target closed'',
        axe_violations := Inl ''net::ERR_NAME_NOT_RESOLVED''\<rparr>"

text \<open>A world in which the authenticated context cannot be made.\<close>

definition no_context_world :: world where
  "no_context_world =
     example_world\<lparr>create_authenticated_context := (\<lambda>sid. Inl ''Session is not authenticated'')\<rparr>"

text \<open>A world in which the page cannot be opened.\<close>

definition no_page_world :: world where
  "no_page_world = example_world\<lparr>new_page := Inl ''Browser has been closed''\<rparr>"

text \<open>The audit record of the example site as it is created, and its runner.\<close>

definition example_audit :: AuditState where
  "example_audit =
     fst (create_audit Map.empty ''audit-1'' 0 ''./artifacts'' ''session-1'' example_target
            example_options)"

definition example_runner :: AuditRunner where
  "example_runner =
     \<lparr>base_domain = ''example.test'',
      preview_path = ''./artifacts/audits/audit-1/preview_latest.jpg''\<rparr>"

text \<open>
  Two renderings of a page that carries one of the error phrases: the first is 100
  characters long, the second 99 characters between two blanks on either side. In
  \<open>verdict_world c code\<close> every page renders as \<open>c\<close> and answers with HTTP status
  \<open>code\<close>.
\<close>

definition example_page_100 :: string where
  "example_page_100 =
     ''<html><body><p>Oops! The report is being prepared, '' @
     ''do come back in a little while.</p></body></html>''"

definition example_page_99 :: string where
  "example_page_99 =
     ''  <html><body><p>Oops The report is being prepared, '' @
     ''do come back in a little while.</p></body></html>  ''"

definition verdict_world :: "string \<Rightarrow> int \<Rightarrow> world" where
  "verdict_world c code =
     example_world\<lparr>goto_page := (\<lambda>u. Inr (Some code)), page_content := (\<lambda>u. Inr c)\<rparr>"

text \<open>The audit of the example site, from its creation on.\<close>

definition example_history :: "world \<Rightarrow> AuditOptions \<Rightarrow> AuditState list" where
  "example_history w opts =
     audit_history w Map.empty ''audit-1'' 0 ''./artifacts'' ''session-1'' example_target opts"


section \<open>Properties of the scoring function\<close>

text \<open>
  Claim C1. For non-negative counters, \<open>calculate_score\<close> returns 100 minus
  \<open>min(2*console, 20) + min(3*network, 20) + min(4*ui_err, 20) + min(3*security, 20) +
  min(a11y, 10) + min(slow, 10)\<close>, clamped to the range 0..100. The score and the grade
  depend on the counters alone, so equal counter tuples give equal score and grade, and
  the all-zero tuple gives score 100 and grade A.
\<close>

theorem calculate_score_formula:
  assumes "0 \<le> c" and "0 \<le> n" and "0 \<le> u" and "0 \<le> s" and "0 \<le> a" and "0 \<le> sl"
  shows "calculate_score c n u s a sl =
           max 0 (min 100 (100 - (min (2 * c) 20 + min (3 * n) 20 + min (4 * u) 20
                                   + min (3 * s) 20 + min a 10 + min sl 10)))
       \<and> ((c', n', u', s', a', sl') = (c, n, u, s, a, sl) \<longrightarrow>
            calculate_score c' n' u' s' a' sl' = calculate_score c n u s a sl
          \<and> get_grade (calculate_score c' n' u' s' a' sl') = get_grade (calculate_score c n u s a sl))
       \<and> calculate_score 0 0 0 0 0 0 = 100
       \<and> get_grade (calculate_score 0 0 0 0 0 0) = ''A''"
  using assms by (simp add: calculate_score_def get_grade_def Let_def min_def max_def)

theorem calculate_score_formula_witness:
  "calculate_score 3 2 0 0 0 0 = 88 \<and> get_grade (calculate_score 3 2 0 0 0 0) = ''B''
   \<and> calculate_score 0 0 0 0 0 0 = 100 \<and> get_grade (calculate_score 0 0 0 0 0 0) = ''A''"
  using calculate_score_formula [of 3 2 0 0 0 0 3 2 0 0 0 0]
  by (simp add: get_grade_def)

section \<open>Properties of the report builder\<close>

text \<open>
  Claim C6. The six category scores are the stated integer formulas, each bounded below
  by 0: Console Errors \<open>20 - 2 * count\<close>, Network/API \<open>20 - 3 * count\<close>, UI Flows
  \<open>20 - 4 * (flows with status error)\<close>, Security \<open>20 - 3 * issues\<close>, Performance
  \<open>10 - (slow endpoints + large assets)\<close>, Accessibility \<open>10 - violations\<close>. The security
  issue count is 0 without a security-hygiene record and otherwise
  \<open>2 * (not https_ok) + |headers_missing| + |cookie issues|\<close>, and the overall score is
  computed from that same count.
\<close>

theorem category_scores_formula:
  "map (\<lambda>c. (category c, score c, max_score c)) (calculate_category_scores audit) =
     [(''Console Errors'', max 0 (20 - 2 * len (console_errors audit)), 20),
      (''Network/API'', max 0 (20 - 3 * len (network_failures audit)), 20),
      (''UI Flows'', max 0 (20 - 4 * len (filter (\<lambda>f. UIFlowResult.status f = ''error'') (ui_flows audit))), 20),
      (''Security'', max 0 (20 - 3 * count_security_issues audit), 20),
      (''Performance'', max 0 (10 - (len (slow_endpoints audit) + len (large_assets audit))), 10),
      (''Accessibility'', max 0 (10 - len (accessibility_violations audit)), 10)]
   \<and> count_security_issues audit =
       (case security_hygiene audit of
          None \<Rightarrow> 0
        | Some sh \<Rightarrow> 2 * (if https_ok sh then 0 else 1) + len (headers_missing sh)
                     + len (cookie_flags_issues sh))
   \<and> build_total_score audit =
       calculate_score (len (console_errors audit)) (len (network_failures audit))
         (len (filter (\<lambda>f. UIFlowResult.status f = ''error'') (ui_flows audit)))
         (count_security_issues audit)
         (len (accessibility_violations audit)) (len (slow_endpoints audit))"
  by (simp add: calculate_category_scores_def count_security_issues_def build_total_score_def
        count_ui_errors_def Let_def mult.commute split: option.split)

section \<open>Properties of the rate limiter\<close>

lemma requests_of_cleanup:
  "requests_of (cleanup_old_requests rl ip now) ip' =
     (if ip' = ip then filter (\<lambda>t. now - minute < t) (requests_of rl ip) else requests_of rl ip')"
  by (cases "ip' = ip") (simp_all add: cleanup_old_requests_def requests_of_def Let_def)

lemma rpm_cleanup: "requests_per_minute (cleanup_old_requests rl ip now) = requests_per_minute rl"
  by (simp add: cleanup_old_requests_def Let_def)

lemma requests_of_update:
  "requests_of (rl\<lparr>requests := (requests rl)(ip \<mapsto> ts)\<rparr>) ip' =
     (if ip' = ip then ts else requests_of rl ip')"
  by (simp add: requests_of_def)

lemma fst_is_allowed:
  "fst (is_allowed rl ip now) \<longleftrightarrow>
     len (filter (\<lambda>t. now - minute < t) (requests_of rl ip)) < requests_per_minute rl"
  by (auto simp: is_allowed_def Let_def requests_of_cleanup rpm_cleanup)

lemma requests_of_is_allowed:
  "requests_of (snd (is_allowed rl ip now)) ip' =
     (if ip' = ip
      then filter (\<lambda>t. now - minute < t) (requests_of rl ip) @ (if fst (is_allowed rl ip now) then [now] else [])
      else requests_of rl ip')"
  by (auto simp: is_allowed_def Let_def requests_of_cleanup rpm_cleanup requests_of_update)

lemma rpm_is_allowed: "requests_per_minute (snd (is_allowed rl ip now)) = requests_per_minute rl"
  by (simp add: is_allowed_def Let_def rpm_cleanup)

lemma serve_snoc:
  "serve rl (calls @ [(ip, now)]) =
     (fst (serve rl calls) @ [fst (is_allowed (snd (serve rl calls)) ip now)],
      snd (is_allowed (snd (serve rl calls)) ip now))"
  by (induction calls arbitrary: rl) (auto simp: split_beta Let_def)

lemma length_serve: "length (fst (serve rl calls)) = length calls"
  by (induction calls arbitrary: rl) (auto simp: split_beta Let_def)

lemma rpm_serve: "requests_per_minute (snd (serve rl calls)) = requests_per_minute rl"
  by (induction calls arbitrary: rl) (auto simp: split_beta Let_def rpm_is_allowed)

lemma admitted_snoc:
  "length oks = length calls \<Longrightarrow>
   admitted ip (calls @ [(ip', now)]) (oks @ [ok]) =
     admitted ip calls oks @ (if ip' = ip \<and> ok then [now] else [])"
  by (simp add: admitted_def)

lemma filter_filter_window:
  "now' \<le> (now::int) \<Longrightarrow>
   filter (\<lambda>t. now - m < t) (filter (\<lambda>t. now' - m < t) ts) = filter (\<lambda>t. now - m < t) ts"
  by (induction ts) auto

lemma window_invariant:
  assumes "sorted (map snd calls)" and "\<forall>c \<in> set calls. snd c \<le> now"
  shows "filter (\<lambda>t. now - minute < t) (requests_of (snd (serve (RateLimiter_init N) calls)) ip) =
         filter (\<lambda>t. now - minute < t) (admitted ip calls (fst (serve (RateLimiter_init N) calls)))"
  using assms
proof (induction calls arbitrary: now rule: rev_induct)
  case Nil
  show ?case by (simp add: RateLimiter_init_def requests_of_def admitted_def)
next
  case (snoc c calls)
  obtain ip' t' where c: "c = (ip', t')" by (cases c)
  from snoc.prems have srt: "sorted (map snd calls)" and le: "\<forall>c \<in> set calls. snd c \<le> t'"
    and t': "t' \<le> now"
    by (auto simp: c sorted_append)
  have le_now: "\<forall>c \<in> set calls. snd c \<le> now" using le t' by auto
  show ?case
  proof (cases "ip' = ip")
    case False
    then show ?thesis
      using snoc.IH [OF srt le_now]
      by (simp add: c serve_snoc requests_of_is_allowed admitted_snoc length_serve)
  next
    case True
    have "filter (\<lambda>t. now - minute < t) (filter (\<lambda>t. t' - minute < t) (requests_of (snd (serve (RateLimiter_init N) calls)) ip))
          = filter (\<lambda>t. now - minute < t) (requests_of (snd (serve (RateLimiter_init N) calls)) ip)"
      using t' by (rule filter_filter_window)
    then show ?thesis
      using snoc.IH [OF srt le_now] True
      by (simp add: c serve_snoc requests_of_is_allowed admitted_snoc length_serve)
  qed
qed

lemma length_invariant:
  "int (length (requests_of (snd (serve (RateLimiter_init N) calls)) ip)) \<le> max 0 N"
proof (induction calls rule: rev_induct)
  case Nil
  show ?case by (simp add: RateLimiter_init_def requests_of_def)
next
  case (snoc c calls)
  obtain ip' t' where c: "c = (ip', t')" by (cases c)
  let ?s = "snd (serve (RateLimiter_init N) calls)"
  have f: "int (length (filter (\<lambda>t. t' - minute < t) (requests_of ?s ip))) \<le> int (length (requests_of ?s ip))"
    by simp
  have rpm: "requests_per_minute ?s = N"
    by (simp add: rpm_serve RateLimiter_init_def)
  show ?case
  proof (cases "ip' = ip")
    case False
    then show ?thesis using snoc.IH by (simp add: c serve_snoc requests_of_is_allowed)
  next
    case True
    show ?thesis
    proof (cases "fst (is_allowed ?s ip t')")
      case False
      have "int (length (filter (\<lambda>t. t' - minute < t) (requests_of ?s ip))) \<le> max 0 N"
        using snoc.IH f by linarith
      then show ?thesis
        using False True by (simp add: c serve_snoc requests_of_is_allowed)
    next
      case adm: True
      then have "int (length (filter (\<lambda>t. t' - minute < t) (requests_of ?s ip))) < N"
        by (simp add: fst_is_allowed rpm len_def)
      then show ?thesis
        using True adm by (simp add: c serve_snoc requests_of_is_allowed)
    qed
  qed
qed

text \<open>
  Claim C7. Take any history of \<open>is_allowed\<close> calls on a fresh limiter with limit \<open>N\<close>,
  with clock readings that do not decrease, and a call from address \<open>ip\<close> at a reading
  \<open>now\<close> not before them. If \<open>N\<close> requests from \<open>ip\<close> were admitted within the minute
  before \<open>now\<close>, the call returns \<open>False\<close>. If the window of \<open>ip\<close> is not empty and 60
  seconds have elapsed since its earliest admitted request, the call returns \<open>True\<close>.
\<close>

theorem rate_limiter_window:
  assumes "sorted (map snd calls)" and "\<forall>c \<in> set calls. snd c \<le> now"
  shows "(N \<le> len (filter (\<lambda>t. now - minute < t) (admitted ip calls (fst (serve (RateLimiter_init N) calls))))
            \<longrightarrow> fst (is_allowed (snd (serve (RateLimiter_init N) calls)) ip now) = False)
       \<and> (requests_of (snd (serve (RateLimiter_init N) calls)) ip \<noteq> []
            \<and> Min (set (requests_of (snd (serve (RateLimiter_init N) calls)) ip)) + minute \<le> now
            \<longrightarrow> fst (is_allowed (snd (serve (RateLimiter_init N) calls)) ip now) = True)"
proof (intro conjI impI)
  let ?s = "snd (serve (RateLimiter_init N) calls)"
  assume "N \<le> len (filter (\<lambda>t. now - minute < t) (admitted ip calls (fst (serve (RateLimiter_init N) calls))))"
  then show "fst (is_allowed ?s ip now) = False"
    using window_invariant [OF assms, of N ip]
    by (simp add: fst_is_allowed rpm_serve RateLimiter_init_def len_def)
next
  let ?s = "snd (serve (RateLimiter_init N) calls)"
  let ?ts = "requests_of ?s ip"
  assume a: "?ts \<noteq> [] \<and> Min (set ?ts) + minute \<le> now"
  then have mem: "Min (set ?ts) \<in> set ?ts" by (intro Min_in) auto
  have "\<not> (now - minute < Min (set ?ts))" using a by linarith
  with mem have "length (filter (\<lambda>t. now - minute < t) ?ts) < length ?ts"
    by (rule length_filter_less)
  moreover have "int (length ?ts) \<le> max 0 N" by (rule length_invariant)
  ultimately have "int (length (filter (\<lambda>t. now - minute < t) ?ts)) < N"
    by linarith
  then show "fst (is_allowed ?s ip now) = True"
    by (simp add: fst_is_allowed rpm_serve RateLimiter_init_def len_def)
qed


theorem rate_limiter_window_witness:
  "sorted (map snd [(''203.0.113.7'', 0::int), (''203.0.113.7'', 1000000)])
   \<and> fst (serve (RateLimiter_init 2) [(''203.0.113.7'', 0), (''203.0.113.7'', 1000000)]) = [True, True]
   \<and> fst (is_allowed (snd (serve (RateLimiter_init 2) [(''203.0.113.7'', 0), (''203.0.113.7'', 1000000)]))
          ''203.0.113.7'' 2000000) = False
   \<and> fst (is_allowed (snd (serve (RateLimiter_init 2) [(''203.0.113.7'', 0), (''203.0.113.7'', 1000000)]))
          ''203.0.113.7'' 60000000) = True"
  using rate_limiter_window [of "[(''203.0.113.7'', 0), (''203.0.113.7'', 1000000)]" 2000000 2 "''203.0.113.7''"]
        rate_limiter_window [of "[(''203.0.113.7'', 0), (''203.0.113.7'', 1000000)]" 60000000 2 "''203.0.113.7''"]
  by (simp add: is_allowed_def cleanup_old_requests_def requests_of_def RateLimiter_init_def
        admitted_def len_def minute_def Let_def)

lemma cleanup_twice:
  assumes "now \<le> now'"
  shows "cleanup_old_requests (cleanup_old_requests rl ip now) ip now' = cleanup_old_requests rl ip now'"
proof -
  have "filter (\<lambda>t. now' - minute < t) (filter (\<lambda>t. now - minute < t) (requests_of rl ip))
        = filter (\<lambda>t. now' - minute < t) (requests_of rl ip)"
    using assms by (rule filter_filter_window)
  then show ?thesis
    by (simp add: cleanup_old_requests_def Let_def requests_of_update)
qed

text \<open>
  Claim C10. A denied check consumes no capacity: when \<open>is_allowed(ip)\<close> returns \<open>False\<close>,
  the timestamp list of \<open>ip\<close> is the old list with the entries older than one minute
  pruned, every other address and the limit are untouched, and any later call from \<open>ip\<close>
  is answered exactly as if the denied call had never been made, so denied requests
  neither extend the window nor delay the moment a slot reopens.
\<close>

theorem denied_consumes_no_capacity:
  assumes "fst (is_allowed rl ip now) = False"
  shows "requests_of (snd (is_allowed rl ip now)) ip
           = filter (\<lambda>t. now - minute < t) (requests_of rl ip)
       \<and> (\<forall>ip'. ip' \<noteq> ip \<longrightarrow> requests (snd (is_allowed rl ip now)) ip' = requests rl ip')
       \<and> requests_per_minute (snd (is_allowed rl ip now)) = requests_per_minute rl
       \<and> (\<forall>now'. now \<le> now' \<longrightarrow>
             is_allowed (snd (is_allowed rl ip now)) ip now' = is_allowed rl ip now')"
proof -
  have denied: "requests_per_minute rl \<le> len (requests_of (cleanup_old_requests rl ip now) ip)"
    using assms by (simp add: is_allowed_def Let_def rpm_cleanup split: if_splits)
  then have snd_eq: "snd (is_allowed rl ip now) = cleanup_old_requests rl ip now"
    by (simp add: is_allowed_def Let_def rpm_cleanup)
  have "\<forall>now'. now \<le> now' \<longrightarrow>
          is_allowed (cleanup_old_requests rl ip now) ip now' = is_allowed rl ip now'"
    by (simp add: is_allowed_def cleanup_twice)
  moreover have "\<forall>ip'. ip' \<noteq> ip \<longrightarrow> requests (cleanup_old_requests rl ip now) ip' = requests rl ip'"
    by (simp add: cleanup_old_requests_def Let_def)
  ultimately show ?thesis
    by (simp add: snd_eq requests_of_cleanup rpm_cleanup)
qed

theorem denied_consumes_no_capacity_witness:
  "fst (is_allowed (snd (serve (RateLimiter_init 1) [(''203.0.113.7'', 0)])) ''203.0.113.7'' 5000000) = False
   \<and> requests_of (snd (is_allowed (snd (serve (RateLimiter_init 1) [(''203.0.113.7'', 0)])) ''203.0.113.7'' 5000000))
        ''203.0.113.7'' = [0]
   \<and> fst (is_allowed (snd (is_allowed (snd (serve (RateLimiter_init 1) [(''203.0.113.7'', 0)])) ''203.0.113.7'' 5000000))
        ''203.0.113.7'' 60000000) = True"
  using denied_consumes_no_capacity [of "snd (serve (RateLimiter_init 1) [(''203.0.113.7'', 0)])" "''203.0.113.7''" 5000000]
  by (simp add: is_allowed_def cleanup_old_requests_def requests_of_def RateLimiter_init_def
        len_def minute_def Let_def)

section \<open>Properties of the security header probe\<close>

lemma header_loop_eq:
  "header_loop headers items r =
     \<lparr>present = present r @ filter (\<lambda>h. \<exists>x \<in> set headers. lower x = lower h) (map fst items),
      missing = missing r @ filter (\<lambda>h. \<not> (\<exists>x \<in> set headers. lower x = lower h)) (map fst items)\<rparr>"
  by (induction headers items r rule: header_loop.induct) (simp_all add: Let_def)

lemma distinct_SECURITY_HEADERS: "distinct (map fst SECURITY_HEADERS)"
  by (simp add: SECURITY_HEADERS_def)

text \<open>
  Where the probe does what Claim C9 says: when the request fails before there is a
  response the result is \<open>present = []\<close> with all six headers \<open>missing\<close>, and when the
  block is left without an exception the two lists partition the six tracked headers.
\<close>

lemma check_security_headers_before_response:
  assumes "head u = Inl failure"
  shows "check_security_headers head u = \<lparr>present = [], missing = map fst SECURITY_HEADERS\<rparr>"
  using assms by (cases failure) (simp_all add: check_security_headers_def on_exception_def)

lemma check_security_headers_clean_exit:
  assumes "head u = Inr (headers, None)"
  shows "set (present (check_security_headers head u)) \<union> set (missing (check_security_headers head u))
           = set (map fst SECURITY_HEADERS)
       \<and> set (present (check_security_headers head u)) \<inter> set (missing (check_security_headers head u)) = {}
       \<and> distinct (present (check_security_headers head u))
       \<and> distinct (missing (check_security_headers head u))"
  using assms distinct_SECURITY_HEADERS
  by (auto simp: check_security_headers_def header_loop_eq)

text \<open>
  Claim C9 says that the \<open>present\<close> and \<open>missing\<close> lists of \<open>check_security_headers\<close>
  partition the six tracked headers for every input, each tracked header being in
  exactly one of them. The code does not keep this when the exception comes after the
  loop: for a response that carries \<open>x-frame-options\<close> and a client whose closing raises
  on leaving the \<open>async with\<close> block, the handler rebinds \<open>missing\<close> to all six headers
  and leaves \<open>present\<close> as the loop filled it, so that \<open>X-Frame-Options\<close> is reported
  both present and missing.
\<close>

theorem check_security_headers_exit_failure:
  "check_security_headers
     (\<lambda>u. Inr ([''x-frame-options''], Some (OtherException ''client close failed'')))
     ''https://example.test/''
   = \<lparr>present = [''X-Frame-Options''],
      missing = [''Strict-Transport-Security'', ''Content-Security-Policy'',
                 ''X-Content-Type-Options'', ''X-Frame-Options'', ''Referrer-Policy'',
                 ''Permissions-Policy'']\<rparr>"
  by code_simp

section \<open>Basic facts about the runner\<close>

lemma report_progress_Inr:
  assumes "report_progress a stg pct cur msg = Inr s"
  shows "s = a\<lparr>progress := \<lparr>stage = stg, percent = pct, current_url = cur,
                     pages_visited = int (card (visited_urls a)),
                     errors_found = len (console_errors a) + len (network_failures a),
                     message = msg\<rparr>\<rparr>"
  using assms by (simp add: report_progress_def update_progress_def split: if_splits)

lemma report_progress_ok:
  assumes "0 \<le> pct" and "pct \<le> 100"
  shows "report_progress a stg pct cur msg =
     Inr (a\<lparr>progress := \<lparr>stage = stg, percent = pct, current_url = cur,
                     pages_visited = int (card (visited_urls a)),
                     errors_found = len (console_errors a) + len (network_failures a),
                     message = msg\<rparr>\<rparr>)"
  using assms by (simp add: report_progress_def update_progress_def)

lemma report_progress_view:
  assumes "\<And>x f. g (x\<lparr>progress := f\<rparr>) = g x"
    and "report_progress a stg pct cur msg = Inr s"
  shows "g s = g a"
  using report_progress_Inr [OF assms(2)] by (simp add: assms(1))

lemma final_Nil [simp]: "final a [] = a"
  by (simp add: final_def)

lemma final_snoc [simp]: "final a (t @ [s]) = s"
  by (simp add: final_def)

lemma final_Cons [simp]: "final a (s # t) = final s t"
  by (simp add: final_def)

lemma final_append: "final a (t @ t') = final (final a t) t'"
  by (induction t arbitrary: a) simp_all

lemma final_cases: "final a t = a \<or> final a t \<in> set t"
  by (induction t arbitrary: a) auto

lemma final_holds: "P a \<Longrightarrow> \<forall>s \<in> set t. P s \<Longrightarrow> P (final a t)"
  using final_cases [of a t] by auto

section \<open>Views: what each function of the runner leaves alone\<close>

lemma discover_loop_view:
  assumes g5: "\<And>x f. g (x\<lparr>discovered_urls := f\<rparr>) = g x"
  shows "g (discover_loop w r links a) = g a"
proof (induction links arbitrary: a)
  case Nil
  show ?case by simp
next
  case (Cons link links)
  show ?case
  proof (cases "urlparse w link")
    case (Inl e)
    then show ?thesis by simp
  next
    case (Inr parsed)
    then show ?thesis by (simp add: Cons.IH g5 Let_def)
  qed
qed

lemma discover_links_view:
  assumes g5: "\<And>x f. g (x\<lparr>discovered_urls := f\<rparr>) = g x"
  shows "g (discover_links w r ev a) = g a"
  by (simp add: discover_links_def discover_loop_view [of g, OF g5] split: sum.split)

lemma capture_view:
  assumes g4: "\<And>x f f'. g (x\<lparr>preview_image_path := f, preview_updated_at := f'\<rparr>) = g x"
  shows "g (capture_live_preview w r reason cur a) = g a"
  by (simp add: capture_live_preview_def g4 split: option.split)

lemma take_screenshot_view:
  assumes g3: "\<And>x f. g (x\<lparr>screenshots := f\<rparr>) = g x"
  shows "g (snd (if c then take_screenshot w u a else (None, a))) = g a"
  by (simp add: take_screenshot_def Let_def g3 split: sum.split)

lemma audit_page_view:
  assumes g1: "\<And>x f. g (x\<lparr>ui_flows := f\<rparr>) = g x"
    and g2: "\<And>x f. g (x\<lparr>page_timings := f\<rparr>) = g x"
    and g3: "\<And>x f. g (x\<lparr>screenshots := f\<rparr>) = g x"
    and g4: "\<And>x f f'. g (x\<lparr>preview_image_path := f, preview_updated_at := f'\<rparr>) = g x"
    and g5: "\<And>x f. g (x\<lparr>discovered_urls := f\<rparr>) = g x"
    and mem: "s \<in> set (audit_page w r u a)"
  shows "g s = g a"
proof -
  note cap = capture_view [of g, OF g4]
  note disc = discover_links_view [of g, OF g5]
  note shot = take_screenshot_view [of g, OF g3]
  show ?thesis
  proof (cases "goto_page w u")
    case (Inl e)
    with mem show ?thesis by (simp add: audit_page_def g1)
  next
    case goto: (Inr response)
    show ?thesis
    proof (cases "page_content w u")
      case (Inl e)
      with mem goto show ?thesis
        unfolding audit_page_def Let_def
        apply simp
        apply (elim disjE)
         apply (simp add: g2)
        apply (simp add: g1 g2)
        done
    next
      case content: (Inr content)
      from mem goto content show ?thesis
        unfolding audit_page_def Let_def split_beta
        apply (simp split del: if_split)
        apply (elim disjE)
            apply (simp add: g2)
           apply (simp add: shot g2 split del: if_split)
          apply (simp add: shot g1 g2 split del: if_split)
         apply (simp add: shot g1 g2 disc split del: if_split)
        apply (simp add: shot g1 g2 disc cap split del: if_split)
        done
    qed
  qed
qed

lemma report_progress_shape:
  assumes "report_progress a stg pct cur msg = Inr s"
  shows "s = a\<lparr>progress := progress s\<rparr>"
  using report_progress_Inr [OF assms] by simp

lemma check_initial_view:
  assumes gp: "\<And>x f. g (x\<lparr>progress := f\<rparr>) = g x"
    and g1: "\<And>x f. g (x\<lparr>ui_flows := f\<rparr>) = g x"
    and g2: "\<And>x f. g (x\<lparr>page_timings := f\<rparr>) = g x"
    and g4: "\<And>x f f'. g (x\<lparr>preview_image_path := f, preview_updated_at := f'\<rparr>) = g x"
    and gv: "\<And>x f. g (x\<lparr>visited_urls := f\<rparr>) = g x"
    and mem: "s \<in> set (fst (check_initial_availability w r a))"
  shows "g s = g a"
proof (cases "report_progress a ''checking_availability'' 10 (Some (url a)) None")
  case (Inl e)
  with mem show ?thesis by (simp add: check_initial_availability_def)
next
  case rp: (Inr s1)
  have s1: "g s1 = g a" using gp rp by (rule report_progress_view)
  note cap = capture_view [of g, OF g4]
  show ?thesis
  proof (cases "goto_initial w")
    case (Inl e)
    with mem rp show ?thesis
      unfolding check_initial_availability_def
      apply simp
      apply (elim disjE)
       apply (simp add: s1)
      apply (simp add: s1 g1)
      done
  next
    case (Inr response)
    with mem rp show ?thesis
      unfolding check_initial_availability_def Let_def split_beta
      apply (simp split del: if_split)
      apply (elim disjE)
        apply (simp add: s1)
       apply (simp add: s1 cap)
      apply (simp add: s1 cap g1 g2 gv split del: if_split)
      done
  qed
qed

lemma security_view:
  assumes gp: "\<And>x f. g (x\<lparr>progress := f\<rparr>) = g x"
    and gs: "\<And>x f. g (x\<lparr>security_hygiene := f\<rparr>) = g x"
    and mem: "s \<in> set (fst (check_security_hygiene w a))"
  shows "g s = g a"
proof (cases "report_progress a ''security_check'' 85 None (Some ''Checking security hygiene...'')")
  case (Inl e)
  with mem show ?thesis by (simp add: check_security_hygiene_def)
next
  case rp: (Inr s1)
  have s1: "g s1 = g a" using gp rp by (rule report_progress_view)
  from mem rp show ?thesis
    unfolding check_security_hygiene_def Let_def
    apply simp
    apply (elim disjE)
     apply (simp add: s1)
    apply (simp add: s1 gs)
    done
qed

lemma a11y_view:
  assumes gp: "\<And>x f. g (x\<lparr>progress := f\<rparr>) = g x"
    and ga: "\<And>x f. g (x\<lparr>accessibility_violations := f\<rparr>) = g x"
    and mem: "s \<in> set (fst (run_accessibility_checks w a))"
  shows "g s = g a"
proof (cases "include_accessibility (options a)")
  case False
  with mem show ?thesis by (simp add: run_accessibility_checks_def)
next
  case True
  show ?thesis
  proof (cases "report_progress a ''accessibility_check'' 90 None (Some ''Running accessibility checks...'')")
    case (Inl e)
    with mem True show ?thesis by (simp add: run_accessibility_checks_def)
  next
    case rp: (Inr s1)
    have s1: "g s1 = g a" using gp rp by (rule report_progress_view)
    show ?thesis
    proof (cases "axe_violations w")
      case (Inl e)
      with mem True rp show ?thesis by (simp add: run_accessibility_checks_def s1)
    next
      case (Inr vs)
      with mem True rp show ?thesis
        unfolding run_accessibility_checks_def
        apply simp
        apply (elim disjE)
         apply (simp add: s1)
        apply (simp add: s1 ga)
        done
    qed
  qed
qed

section \<open>Sequencing\<close>

lemma and_then_raised: "snd p = Some e \<Longrightarrow> and_then a p f = p"
  by (cases p) (simp add: and_then_def)

lemma fst_and_then:
  "snd p = None \<Longrightarrow> fst (and_then a p f) = fst p @ fst (f (final a (fst p)))"
  by (cases p) (simp add: and_then_def split_beta)

lemma snd_and_then:
  "snd p = None \<Longrightarrow> snd (and_then a p f) = snd (f (final a (fst p)))"
  by (cases p) (simp add: and_then_def split_beta)

lemma and_then_mem:
  assumes "s \<in> set (fst (and_then a p f))"
  shows "s \<in> set (fst p) \<or> s \<in> set (fst (f (final a (fst p))))"
proof (cases "snd p")
  case None
  then show ?thesis using assms by (simp add: fst_and_then)
next
  case (Some e)
  then show ?thesis using assms by (simp add: and_then_raised)
qed

lemma and_then_view:
  assumes first: "\<And>s. s \<in> set (fst p) \<Longrightarrow> g s = g a"
    and second: "\<And>b s. g b = g a \<Longrightarrow> s \<in> set (fst (f b)) \<Longrightarrow> g s = g a"
    and mem: "s \<in> set (fst (and_then a p f))"
  shows "g s = g a"
proof -
  have "g (final a (fst p)) = g a"
    using first by (intro final_holds [where P = "\<lambda>x. g x = g a"]) auto
  then show ?thesis
    using and_then_mem [OF mem] first second by blast
qed

section \<open>The page loop\<close>

text \<open>One round of the page loop, with the progress report kept abstract.\<close>

lemma audit_pages_step:
  assumes "s \<in> set (fst (audit_pages w r tot i (u # us) a))"
  obtains s1 where "s1 = a\<lparr>progress := progress s1\<rparr>"
    and "s = s1 \<or> s \<in> set (audit_page w r u s1)
         \<or> s = (final s1 (audit_page w r u s1))\<lparr>visited_urls :=
                  insert u (visited_urls (final s1 (audit_page w r u s1)))\<rparr>
         \<or> s \<in> set (fst (audit_pages w r tot (i + 1) us
                  ((final s1 (audit_page w r u s1))\<lparr>visited_urls :=
                     insert u (visited_urls (final s1 (audit_page w r u s1)))\<rparr>)))"
proof (cases "report_progress a ''auditing_pages'' (20 + (i * 60) div (max tot 1)) (Some u)
                (Some (''Checking page '' @ str_int (i + 1) @ ''/'' @ str_int tot))")
  case (Inl e)
  then have "fst (audit_pages w r tot i (u # us) a) = []"
    by (simp only: audit_pages.simps Let_def sum.case fst_conv)
  with assms show thesis by simp
next
  case (Inr s1)
  have shape: "s1 = a\<lparr>progress := progress s1\<rparr>"
    using Inr by (rule report_progress_shape)
  have "fst (audit_pages w r tot i (u # us) a) =
          s1 # audit_page w r u s1 @
          [(final s1 (audit_page w r u s1))\<lparr>visited_urls :=
              insert u (visited_urls (final s1 (audit_page w r u s1)))\<rparr>] @
          fst (audit_pages w r tot (i + 1) us
            ((final s1 (audit_page w r u s1))\<lparr>visited_urls :=
               insert u (visited_urls (final s1 (audit_page w r u s1)))\<rparr>))"
    using Inr by (simp only: audit_pages.simps Let_def sum.case split_beta fst_conv)
  with assms have "s = s1 \<or> s \<in> set (audit_page w r u s1)
         \<or> s = (final s1 (audit_page w r u s1))\<lparr>visited_urls :=
                  insert u (visited_urls (final s1 (audit_page w r u s1)))\<rparr>
         \<or> s \<in> set (fst (audit_pages w r tot (i + 1) us
                  ((final s1 (audit_page w r u s1))\<lparr>visited_urls :=
                     insert u (visited_urls (final s1 (audit_page w r u s1)))\<rparr>)))"
    by auto
  with shape show thesis using that by blast
qed

lemma audit_pages_view:
  assumes gp: "\<And>x f. g (x\<lparr>progress := f\<rparr>) = g x"
    and g1: "\<And>x f. g (x\<lparr>ui_flows := f\<rparr>) = g x"
    and g2: "\<And>x f. g (x\<lparr>page_timings := f\<rparr>) = g x"
    and g3: "\<And>x f. g (x\<lparr>screenshots := f\<rparr>) = g x"
    and g4: "\<And>x f f'. g (x\<lparr>preview_image_path := f, preview_updated_at := f'\<rparr>) = g x"
    and g5: "\<And>x f. g (x\<lparr>discovered_urls := f\<rparr>) = g x"
    and gv: "\<And>x f. g (x\<lparr>visited_urls := f\<rparr>) = g x"
  shows "s \<in> set (fst (audit_pages w r tot i us a)) \<Longrightarrow> g s = g a"
proof (induction us arbitrary: a i)
  case Nil
  then show ?case by simp
next
  case (Cons u us)
  from Cons.prems obtain s1 where shape: "s1 = a\<lparr>progress := progress s1\<rparr>"
    and d: "s = s1 \<or> s \<in> set (audit_page w r u s1)
         \<or> s = (final s1 (audit_page w r u s1))\<lparr>visited_urls :=
                  insert u (visited_urls (final s1 (audit_page w r u s1)))\<rparr>
         \<or> s \<in> set (fst (audit_pages w r tot (i + 1) us
                  ((final s1 (audit_page w r u s1))\<lparr>visited_urls :=
                     insert u (visited_urls (final s1 (audit_page w r u s1)))\<rparr>)))"
    by (rule audit_pages_step)
  let ?s2 = "final s1 (audit_page w r u s1)"
  let ?s3 = "?s2\<lparr>visited_urls := insert u (visited_urls ?s2)\<rparr>"
  have c1: "g s1 = g a" by (subst shape) (rule gp)
  have ct: "\<forall>x \<in> set (audit_page w r u s1). g x = g a"
    using audit_page_view [of g, OF g1 g2 g3 g4 g5] c1 by metis
  have c2: "g ?s2 = g a"
    using c1 ct by (rule final_holds [where P = "\<lambda>x. g x = g a"])
  have c3: "g ?s3 = g a" using c2 by (simp add: gv)
  from d show ?case
  proof (elim disjE)
    assume "s = s1" then show ?thesis using c1 by simp
  next
    assume "s \<in> set (audit_page w r u s1)" then show ?thesis using ct by blast
  next
    assume "s = ?s3" then show ?thesis using c3 by simp
  next
    assume "s \<in> set (fst (audit_pages w r tot (i + 1) us ?s3))"
    then have "g s = g ?s3" by (rule Cons.IH)
    then show ?thesis using c3 by simp
  qed
qed

lemma crawl_view:
  assumes gp: "\<And>x f. g (x\<lparr>progress := f\<rparr>) = g x"
    and g1: "\<And>x f. g (x\<lparr>ui_flows := f\<rparr>) = g x"
    and g2: "\<And>x f. g (x\<lparr>page_timings := f\<rparr>) = g x"
    and g3: "\<And>x f. g (x\<lparr>screenshots := f\<rparr>) = g x"
    and g4: "\<And>x f f'. g (x\<lparr>preview_image_path := f, preview_updated_at := f'\<rparr>) = g x"
    and g5: "\<And>x f. g (x\<lparr>discovered_urls := f\<rparr>) = g x"
    and gv: "\<And>x f. g (x\<lparr>visited_urls := f\<rparr>) = g x"
    and mem: "s \<in> set (fst (crawl_and_audit w r a))"
  shows "g s = g a"
proof (cases "report_progress a ''crawling'' 20 None (Some ''Discovering pages...'')")
  case (Inl e)
  with mem show ?thesis by (simp add: crawl_and_audit_def)
next
  case rp: (Inr s1)
  have s1: "g s1 = g a" using gp rp by (rule report_progress_view)
  let ?s2 = "discover_links w r (evaluate_links_initial w) s1"
  have s2: "g ?s2 = g a" using s1 by (simp add: discover_links_view [of g, OF g5])
  from mem rp have "s = s1 \<or> s = ?s2
      \<or> s \<in> set (fst (audit_pages w r (len (pages_to_visit w ?s2)) 0 (pages_to_visit w ?s2) ?s2))"
    unfolding crawl_and_audit_def Let_def split_beta by simp
  then show ?thesis
  proof (elim disjE)
    assume "s = s1" then show ?thesis using s1 by simp
  next
    assume "s = ?s2" then show ?thesis using s2 by simp
  next
    assume "s \<in> set (fst (audit_pages w r (len (pages_to_visit w ?s2)) 0 (pages_to_visit w ?s2) ?s2))"
    then have "g s = g ?s2" by (rule audit_pages_view [of g, OF gp g1 g2 g3 g4 g5 gv])
    then show ?thesis using s2 by simp
  qed
qed

text \<open>
  A view that depends on none of the fields that the phases write is the same in
  every state of the four phases.
\<close>

lemma run_phases_view:
  assumes gp: "\<And>x f. g (x\<lparr>progress := f\<rparr>) = g x"
    and g1: "\<And>x f. g (x\<lparr>ui_flows := f\<rparr>) = g x"
    and g2: "\<And>x f. g (x\<lparr>page_timings := f\<rparr>) = g x"
    and g3: "\<And>x f. g (x\<lparr>screenshots := f\<rparr>) = g x"
    and g4: "\<And>x f f'. g (x\<lparr>preview_image_path := f, preview_updated_at := f'\<rparr>) = g x"
    and g5: "\<And>x f. g (x\<lparr>discovered_urls := f\<rparr>) = g x"
    and gv: "\<And>x f. g (x\<lparr>visited_urls := f\<rparr>) = g x"
    and gs: "\<And>x f. g (x\<lparr>security_hygiene := f\<rparr>) = g x"
    and ga: "\<And>x f. g (x\<lparr>accessibility_violations := f\<rparr>) = g x"
    and mem: "s \<in> set (fst (run_phases w r a))"
  shows "g s = g a"
proof -
  have p1: "\<And>s. s \<in> set (fst (check_initial_availability w r a)) \<Longrightarrow> g s = g a"
    by (rule check_initial_view [of g, OF gp g1 g2 g4 gv])
  have p2: "\<And>b s. g b = g a \<Longrightarrow> s \<in> set (fst (crawl_and_audit w r b)) \<Longrightarrow> g s = g a"
    using crawl_view [of g, OF gp g1 g2 g3 g4 g5 gv] by metis
  have p3: "\<And>b s. g b = g a \<Longrightarrow> s \<in> set (fst (check_security_hygiene w b)) \<Longrightarrow> g s = g a"
    using security_view [of g, OF gp gs] by metis
  have p4: "\<And>b s. g b = g a \<Longrightarrow> s \<in> set (fst (run_accessibility_checks w b)) \<Longrightarrow> g s = g a"
    using a11y_view [of g, OF gp ga] by metis
  have q2: "\<And>s. s \<in> set (fst (and_then a (check_initial_availability w r a) (crawl_and_audit w r)))
              \<Longrightarrow> g s = g a"
    using p1 p2 by (rule and_then_view [of _ g a])
  have q3: "\<And>s. s \<in> set (fst (and_then a (and_then a (check_initial_availability w r a)
                (crawl_and_audit w r)) (check_security_hygiene w))) \<Longrightarrow> g s = g a"
    using q2 p3 by (rule and_then_view [of _ g a])
  show ?thesis
    using q3 p4 mem unfolding run_phases_def by (rule and_then_view [of _ g a])
qed

section \<open>No progress report of the runner is refused\<close>

lemma loop_percent_in_range:
  assumes "0 \<le> (i::int)" and "i < tot"
  shows "0 \<le> 20 + (i * 60) div (max tot 1) \<and> 20 + (i * 60) div (max tot 1) \<le> 100"
proof -
  have tot: "max tot 1 = tot" "0 < tot" using assms by simp_all
  have "0 \<le> (i * 60) div tot"
    using assms tot by (simp add: pos_imp_zdiv_nonneg_iff)
  moreover have "(i * 60) div tot \<le> (tot * 60) div tot"
    using assms tot by (intro zdiv_mono1) auto
  moreover have "(tot * 60) div tot = 60" using tot by simp
  ultimately show ?thesis using tot by simp
qed

lemma audit_pages_no_raise:
  "0 \<le> i \<Longrightarrow> i + int (length us) \<le> tot \<Longrightarrow> snd (audit_pages w r tot i us a) = None"
proof (induction us arbitrary: i a)
  case Nil
  show ?case by simp
next
  case (Cons u us)
  have "i < tot" using Cons.prems by simp
  with Cons.prems have rng: "0 \<le> 20 + (i * 60) div (max tot 1)" "20 + (i * 60) div (max tot 1) \<le> 100"
    using loop_percent_in_range by blast+
  obtain s1 where rp: "report_progress a ''auditing_pages'' (20 + (i * 60) div (max tot 1)) (Some u)
                (Some (''Checking page '' @ str_int (i + 1) @ ''/'' @ str_int tot)) = Inr s1"
    using report_progress_ok [OF rng] by blast
  have "snd (audit_pages w r tot i (u # us) a) =
          snd (audit_pages w r tot (i + 1) us
            ((final s1 (audit_page w r u s1))\<lparr>visited_urls :=
               insert u (visited_urls (final s1 (audit_page w r u s1)))\<rparr>))"
    using rp by (simp only: audit_pages.simps Let_def sum.case split_beta snd_conv)
  moreover have "0 \<le> i + 1" "i + 1 + int (length us) \<le> tot" using Cons.prems by auto
  ultimately show ?case using Cons.IH by simp
qed

lemma check_initial_no_raise: "snd (check_initial_availability w r a) = None"
  by (simp add: check_initial_availability_def report_progress_ok Let_def split_beta split: sum.split)

lemma security_no_raise: "snd (check_security_hygiene w a) = None"
  by (simp add: check_security_hygiene_def report_progress_ok Let_def)

lemma a11y_no_raise: "snd (run_accessibility_checks w a) = None"
  by (simp add: run_accessibility_checks_def report_progress_ok split: sum.split)

lemma crawl_no_raise: "snd (crawl_and_audit w r a) = None"
  by (simp add: crawl_and_audit_def report_progress_ok Let_def split_beta
        audit_pages_no_raise len_def)

lemma run_phases_no_raise: "snd (run_phases w r a) = None"
  by (simp add: run_phases_def snd_and_then check_initial_no_raise crawl_no_raise
        security_no_raise a11y_no_raise)

section \<open>The shape of a run\<close>

lemma and_then_None:
  "and_then a (t, None) f = (t @ fst (f (final a t)), snd (f (final a t)))"
  by (simp add: and_then_def split_beta)

lemma run_starting:
  obtains s1 where "report_progress (a\<lparr>status := RUNNING\<rparr>) ''starting'' 5 None None = Inr s1"
    and "s1 = a\<lparr>status := RUNNING, progress := progress s1\<rparr>"
proof -
  obtain s1 where rp: "report_progress (a\<lparr>status := RUNNING\<rparr>) ''starting'' 5 None None = Inr s1"
    using report_progress_ok [of 5] by simp
  have "s1 = (a\<lparr>status := RUNNING\<rparr>)\<lparr>progress := progress s1\<rparr>"
    using rp by (rule report_progress_shape)
  then show thesis using rp that by simp
qed

lemma run_failed_states:
  obtains e2 where "run_failed e s = [s\<lparr>status := ERROR, error_message := Some e\<rparr>, e2]"
    and "e2 = s\<lparr>status := ERROR, error_message := Some e, progress := progress e2\<rparr>"
    and "stage (progress e2) = ''error''" and "percent (progress e2) = 0"
    and "AuditProgress.message (progress e2) = Some (''Audit failed: '' @ e)"
proof -
  let ?s1 = "s\<lparr>status := ERROR, error_message := Some e\<rparr>"
  let ?e2 = "?s1\<lparr>progress := \<lparr>stage = ''error'', percent = 0, current_url = None,
                     pages_visited = int (card (visited_urls ?s1)),
                     errors_found = len (console_errors ?s1) + len (network_failures ?s1),
                     message = Some (''Audit failed: '' @ e)\<rparr>\<rparr>"
  have rp: "report_progress ?s1 ''error'' 0 None (Some (''Audit failed: '' @ e)) = Inr ?e2"
    by (rule report_progress_ok) simp_all
  have "run_failed e s = [?s1, ?e2]"
    unfolding run_failed_def Let_def by (simp only: rp sum.case)
  moreover have "?e2 = s\<lparr>status := ERROR, error_message := Some e, progress := progress ?e2\<rparr>"
    by simp
  moreover have "stage (progress ?e2) = ''error''" "percent (progress ?e2) = 0"
    "AuditProgress.message (progress ?e2) = Some (''Audit failed: '' @ e)"
    by simp_all
  ultimately show thesis using that by blast
qed

lemma run_complete_states:
  obtains d2 where "run_complete w s = ([s\<lparr>status := DONE, finished_at := Some (utcnow w)\<rparr>, d2], None)"
    and "d2 = s\<lparr>status := DONE, finished_at := Some (utcnow w), progress := progress d2\<rparr>"
    and "stage (progress d2) = ''complete''" and "percent (progress d2) = 100"
proof -
  let ?s1 = "s\<lparr>status := DONE, finished_at := Some (utcnow w)\<rparr>"
  let ?msg = "Some (''Audit complete. Visited '' @ str_int (int (card (visited_urls ?s1))) @ '' pages.'')"
  let ?d2 = "?s1\<lparr>progress := \<lparr>stage = ''complete'', percent = 100, current_url = None,
                     pages_visited = int (card (visited_urls ?s1)),
                     errors_found = len (console_errors ?s1) + len (network_failures ?s1),
                     message = ?msg\<rparr>\<rparr>"
  have rp: "report_progress ?s1 ''complete'' 100 None ?msg = Inr ?d2"
    by (rule report_progress_ok) simp_all
  have "run_complete w s = ([?s1, ?d2], None)"
    unfolding run_complete_def Let_def by (simp only: rp sum.case)
  moreover have "?d2 = s\<lparr>status := DONE, finished_at := Some (utcnow w), progress := progress ?d2\<rparr>"
    by simp
  moreover have "stage (progress ?d2) = ''complete''" "percent (progress ?d2) = 100"
    by simp_all
  ultimately show thesis using that by blast
qed

text \<open>A run in which the context or the page cannot be had.\<close>

lemma run_fatal:
  assumes "create_authenticated_context w (session_id a) = Inl e
           \<or> (\<exists>c. create_authenticated_context w (session_id a) = Inr c) \<and> new_page w = Inl e"
  obtains s1 e2 where
    "run w r a = [a\<lparr>status := RUNNING\<rparr>, s1, s1\<lparr>status := ERROR, error_message := Some e\<rparr>, e2]"
    and "s1 = a\<lparr>status := RUNNING, progress := progress s1\<rparr>"
    and "e2 = s1\<lparr>status := ERROR, error_message := Some e, progress := progress e2\<rparr>"
    and "stage (progress e2) = ''error''" and "percent (progress e2) = 0"
    and "AuditProgress.message (progress e2) = Some (''Audit failed: '' @ e)"
proof -
  obtain s1 where rp: "report_progress (a\<lparr>status := RUNNING\<rparr>) ''starting'' 5 None None = Inr s1"
    and s1: "s1 = a\<lparr>status := RUNNING, progress := progress s1\<rparr>"
    by (rule run_starting)
  have sid: "session_id s1 = session_id a" by (subst s1) simp
  have body: "run_body w r a = ([a\<lparr>status := RUNNING\<rparr>, s1], Some e)"
    using assms rp sid unfolding run_body_def Let_def by auto
  obtain e2 where f: "run_failed e s1 = [s1\<lparr>status := ERROR, error_message := Some e\<rparr>, e2]"
    and e2: "e2 = s1\<lparr>status := ERROR, error_message := Some e, progress := progress e2\<rparr>"
      "stage (progress e2) = ''error''" "percent (progress e2) = 0"
      "AuditProgress.message (progress e2) = Some (''Audit failed: '' @ e)"
    by (rule run_failed_states)
  have "run w r a = [a\<lparr>status := RUNNING\<rparr>, s1, s1\<lparr>status := ERROR, error_message := Some e\<rparr>, e2]"
    unfolding run_def body by (simp add: f)
  then show thesis using s1 e2 that by blast
qed

text \<open>A run in which the context and the page are there.\<close>

lemma run_through:
  assumes "create_authenticated_context w (session_id a) = Inr c" and "new_page w = Inr p"
  obtains s1 d2 where
    "run w r a = [a\<lparr>status := RUNNING\<rparr>, s1] @ fst (run_phases w r s1) @
       [(final s1 (fst (run_phases w r s1)))\<lparr>status := DONE, finished_at := Some (utcnow w)\<rparr>, d2]"
    and "s1 = a\<lparr>status := RUNNING, progress := progress s1\<rparr>"
    and "d2 = (final s1 (fst (run_phases w r s1)))\<lparr>status := DONE, finished_at := Some (utcnow w),
                 progress := progress d2\<rparr>"
    and "stage (progress d2) = ''complete''" and "percent (progress d2) = 100"
proof -
  obtain s1 where rp: "report_progress (a\<lparr>status := RUNNING\<rparr>) ''starting'' 5 None None = Inr s1"
    and s1: "s1 = a\<lparr>status := RUNNING, progress := progress s1\<rparr>"
    by (rule run_starting)
  have sid: "session_id s1 = session_id a" by (subst s1) simp
  let ?t = "fst (run_phases w r s1)"
  obtain d2 where c: "run_complete w (final s1 ?t)
        = ([(final s1 ?t)\<lparr>status := DONE, finished_at := Some (utcnow w)\<rparr>, d2], None)"
    and d2: "d2 = (final s1 ?t)\<lparr>status := DONE, finished_at := Some (utcnow w), progress := progress d2\<rparr>"
      "stage (progress d2) = ''complete''" "percent (progress d2) = 100"
    by (rule run_complete_states)
  have first: "and_then (a\<lparr>status := RUNNING\<rparr>) ([a\<lparr>status := RUNNING\<rparr>, s1], None) (run_phases w r)
      = ([a\<lparr>status := RUNNING\<rparr>, s1] @ ?t, None)"
    using run_phases_no_raise [of w r s1]
    by (simp add: and_then_None)
  have "run_body w r a =
      and_then (a\<lparr>status := RUNNING\<rparr>)
        (and_then (a\<lparr>status := RUNNING\<rparr>) ([a\<lparr>status := RUNNING\<rparr>, s1], None) (run_phases w r))
        (run_complete w)"
    unfolding run_body_def Let_def
    using assms rp sid by simp
  also have "\<dots> = and_then (a\<lparr>status := RUNNING\<rparr>) ([a\<lparr>status := RUNNING\<rparr>, s1] @ ?t, None) (run_complete w)"
    by (simp only: first)
  also have "\<dots> = ([a\<lparr>status := RUNNING\<rparr>, s1] @ ?t @
       [(final s1 ?t)\<lparr>status := DONE, finished_at := Some (utcnow w)\<rparr>, d2], None)"
    by (simp add: and_then_None c)
  finally have "run_body w r a = ([a\<lparr>status := RUNNING\<rparr>, s1] @ ?t @
       [(final s1 ?t)\<lparr>status := DONE, finished_at := Some (utcnow w)\<rparr>, d2], None)" .
  then have "run w r a = [a\<lparr>status := RUNNING\<rparr>, s1] @ ?t @
       [(final s1 ?t)\<lparr>status := DONE, finished_at := Some (utcnow w)\<rparr>, d2]"
    by (simp add: run_def)
  then show thesis using s1 d2 that by blast
qed

section \<open>Status, completion time and failure of a run\<close>

lemma core_run_phases:
  assumes "s \<in> set (fst (run_phases w r a))"
  shows "core s = core a"
  by (rule run_phases_view [where g = core, OF _ _ _ _ _ _ _ _ _ assms]) (simp_all add: core_def)

lemma ctx_page_cases:
  obtains (ctx) e where "create_authenticated_context w sid = Inl e"
  | (page) c e where "create_authenticated_context w sid = Inr c" "new_page w = Inl e"
  | (through) c p where "create_authenticated_context w sid = Inr c" "new_page w = Inr p"
  by (cases "create_authenticated_context w sid"; cases "new_page w") auto

lemma run_finished_at:
  assumes fresh: "finished_at a = None"
  shows "\<forall>s \<in> set (run w r a). (finished_at s \<noteq> None \<longleftrightarrow> status s = DONE)"
proof (cases rule: ctx_page_cases [of w "session_id a"])
  case (ctx e)
  then have "create_authenticated_context w (session_id a) = Inl e
      \<or> (\<exists>c. create_authenticated_context w (session_id a) = Inr c) \<and> new_page w = Inl e"
    by simp
  then obtain s1 e2 where run: "run w r a = [a\<lparr>status := RUNNING\<rparr>, s1, s1\<lparr>status := ERROR, error_message := Some e\<rparr>, e2]"
    and s1: "s1 = a\<lparr>status := RUNNING, progress := progress s1\<rparr>"
    and e2: "e2 = s1\<lparr>status := ERROR, error_message := Some e, progress := progress e2\<rparr>"
    by (rule run_fatal)
  have "finished_at s1 = None" "status s1 = RUNNING" by (subst s1, simp add: fresh)+
  moreover from this have "finished_at e2 = None" "status e2 = ERROR" by (subst e2, simp)+
  ultimately show ?thesis using fresh by (simp add: run)
next
  case (page c e)
  then have "create_authenticated_context w (session_id a) = Inl e
      \<or> (\<exists>c. create_authenticated_context w (session_id a) = Inr c) \<and> new_page w = Inl e"
    by simp
  then obtain s1 e2 where run: "run w r a = [a\<lparr>status := RUNNING\<rparr>, s1, s1\<lparr>status := ERROR, error_message := Some e\<rparr>, e2]"
    and s1: "s1 = a\<lparr>status := RUNNING, progress := progress s1\<rparr>"
    and e2: "e2 = s1\<lparr>status := ERROR, error_message := Some e, progress := progress e2\<rparr>"
    by (rule run_fatal)
  have "finished_at s1 = None" "status s1 = RUNNING" by (subst s1, simp add: fresh)+
  moreover from this have "finished_at e2 = None" "status e2 = ERROR" by (subst e2, simp)+
  ultimately show ?thesis using fresh by (simp add: run)
next
  case (through c p)
  then obtain s1 d2 where run: "run w r a = [a\<lparr>status := RUNNING\<rparr>, s1] @ fst (run_phases w r s1) @
       [(final s1 (fst (run_phases w r s1)))\<lparr>status := DONE, finished_at := Some (utcnow w)\<rparr>, d2]"
    and s1: "s1 = a\<lparr>status := RUNNING, progress := progress s1\<rparr>"
    and d2: "d2 = (final s1 (fst (run_phases w r s1)))\<lparr>status := DONE, finished_at := Some (utcnow w),
                 progress := progress d2\<rparr>"
    by (rule run_through)
  have c1: "finished_at s1 = None" "status s1 = RUNNING" by (subst s1, simp add: fresh)+
  have ph: "\<forall>s \<in> set (fst (run_phases w r s1)). finished_at s = None \<and> status s = RUNNING"
  proof
    fix s assume "s \<in> set (fst (run_phases w r s1))"
    then have "core s = core s1" by (rule core_run_phases)
    then show "finished_at s = None \<and> status s = RUNNING" using c1 by (simp add: core_def)
  qed
  have "finished_at d2 \<noteq> None" "status d2 = DONE" by (subst d2, simp)+
  then show ?thesis using fresh c1 ph by (auto simp: run)
qed

lemma last_run_fatal:
  assumes "create_authenticated_context w (session_id a) = Inl e
           \<or> (\<exists>c. create_authenticated_context w (session_id a) = Inr c) \<and> new_page w = Inl e"
  shows "status (last (run w r a)) = ERROR \<and> finished_at (last (run w r a)) = finished_at a
       \<and> error_message (last (run w r a)) = Some e
       \<and> percent (progress (last (run w r a))) = 0
       \<and> stage (progress (last (run w r a))) = ''error''
       \<and> AuditProgress.message (progress (last (run w r a))) = Some (''Audit failed: '' @ e)"
proof -
  from assms obtain s1 e2 where run: "run w r a = [a\<lparr>status := RUNNING\<rparr>, s1, s1\<lparr>status := ERROR, error_message := Some e\<rparr>, e2]"
    and s1: "s1 = a\<lparr>status := RUNNING, progress := progress s1\<rparr>"
    and e2: "e2 = s1\<lparr>status := ERROR, error_message := Some e, progress := progress e2\<rparr>"
      "stage (progress e2) = ''error''" "percent (progress e2) = 0"
      "AuditProgress.message (progress e2) = Some (''Audit failed: '' @ e)"
    by (rule run_fatal)
  have "finished_at s1 = finished_at a" by (subst s1) simp
  then have "status e2 = ERROR" "finished_at e2 = finished_at a" "error_message e2 = Some e"
    by (subst e2(1), simp)+
  then show ?thesis using e2 by (simp add: run)
qed

lemma last_run_through:
  assumes "create_authenticated_context w (session_id a) = Inr c" and "new_page w = Inr p"
  shows "status (last (run w r a)) = DONE \<and> finished_at (last (run w r a)) = Some (utcnow w)
       \<and> error_message (last (run w r a)) = error_message a
       \<and> percent (progress (last (run w r a))) = 100
       \<and> stage (progress (last (run w r a))) = ''complete''"
proof -
  from assms obtain s1 d2 where run: "run w r a = [a\<lparr>status := RUNNING\<rparr>, s1] @ fst (run_phases w r s1) @
       [(final s1 (fst (run_phases w r s1)))\<lparr>status := DONE, finished_at := Some (utcnow w)\<rparr>, d2]"
    and s1: "s1 = a\<lparr>status := RUNNING, progress := progress s1\<rparr>"
    and d2: "d2 = (final s1 (fst (run_phases w r s1)))\<lparr>status := DONE, finished_at := Some (utcnow w),
                 progress := progress d2\<rparr>"
      "stage (progress d2) = ''complete''" "percent (progress d2) = 100"
    by (rule run_through)
  have "core (final s1 (fst (run_phases w r s1))) = core s1"
    using core_run_phases by (intro final_holds [where P = "\<lambda>x. core x = core s1"]) auto
  moreover have "error_message s1 = error_message a" by (subst s1) simp
  ultimately have "error_message (final s1 (fst (run_phases w r s1))) = error_message a"
    by (simp add: core_def)
  then have "status d2 = DONE" "finished_at d2 = Some (utcnow w)" "error_message d2 = error_message a"
    by (subst d2(1), simp)+
  then show ?thesis using d2 by (simp add: run)
qed

text \<open>
  Claim C3. For every world and every audit, \<open>run\<close> ends with status \<open>error\<close> exactly
  when minting the authenticated context or opening the page fails, and with status
  \<open>done\<close> otherwise. The world is arbitrary in every other answer, so a failure of the
  first navigation, of link discovery, of a page navigation, of a screenshot, of the
  cookie enumeration, of the accessibility injection, of a preview capture or of the UI
  probing leaves the run on its way to \<open>done\<close>. When the run does fail,
  \<open>error_message\<close> is the text of the failure and the progress is percent 0 with stage
  \<open>error\<close> and the message \<open>Audit failed: ...\<close>.
\<close>

theorem run_fatal_only_without_context_or_page:
  "status (last (run w r a)) =
     (if isl (create_authenticated_context w (session_id a)) \<or> isl (new_page w) then ERROR else DONE)
   \<and> (\<forall>e. create_authenticated_context w (session_id a) = Inl e
            \<or> \<not> isl (create_authenticated_context w (session_id a)) \<and> new_page w = Inl e
         \<longrightarrow> error_message (last (run w r a)) = Some e
           \<and> percent (progress (last (run w r a))) = 0
           \<and> stage (progress (last (run w r a))) = ''error''
           \<and> AuditProgress.message (progress (last (run w r a))) = Some (''Audit failed: '' @ e))"
proof (cases rule: ctx_page_cases [of w "session_id a"])
  case (ctx e)
  then have "create_authenticated_context w (session_id a) = Inl e
      \<or> (\<exists>c. create_authenticated_context w (session_id a) = Inr c) \<and> new_page w = Inl e"
    by simp
  from last_run_fatal [OF this] ctx show ?thesis by simp
next
  case (page c e)
  then have "create_authenticated_context w (session_id a) = Inl e
      \<or> (\<exists>c. create_authenticated_context w (session_id a) = Inr c) \<and> new_page w = Inl e"
    by simp
  from last_run_fatal [OF this] page show ?thesis by simp
next
  case (through c p)
  from last_run_through [OF this] through show ?thesis by simp
qed

section \<open>An audit from its creation on\<close>

lemma create_audit_fields:
  "status (fst (create_audit audits uuid4 now dir sid target opts)) = QUEUED"
  "finished_at (fst (create_audit audits uuid4 now dir sid target opts)) = None"
  "error_message (fst (create_audit audits uuid4 now dir sid target opts)) = None"
  "visited_urls (fst (create_audit audits uuid4 now dir sid target opts)) = {}"
  "discovered_urls (fst (create_audit audits uuid4 now dir sid target opts)) = {}"
  "options (fst (create_audit audits uuid4 now dir sid target opts)) = opts"
  "url (fst (create_audit audits uuid4 now dir sid target opts)) = target"
  "session_id (fst (create_audit audits uuid4 now dir sid target opts)) = sid"
  by (simp_all add: create_audit_def Let_def)

lemma audit_history_shape:
  "audit_history w audits uuid4 now dir sid target opts
     = [fst (create_audit audits uuid4 now dir sid target opts)]
   \<or> (\<exists>r. audit_history w audits uuid4 now dir sid target opts
          = fst (create_audit audits uuid4 now dir sid target opts)
            # run w r (fst (create_audit audits uuid4 now dir sid target opts))
        \<and> (\<exists>parsed. urlparse w target = Inr parsed \<and> base_domain r = netloc parsed))"
proof (cases "urlparse w target")
  case (Inl e)
  then have "audit_history w audits uuid4 now dir sid target opts
     = [fst (create_audit audits uuid4 now dir sid target opts)]"
    by (simp add: audit_history_def create_audit_def Let_def run_audit_async_def get_audit_def
          AuditRunner_init_def)
  then show ?thesis by simp
next
  case (Inr parsed)
  let ?a0 = "fst (create_audit audits uuid4 now dir sid target opts)"
  let ?r = "\<lparr>base_domain = netloc parsed,
            preview_path = os_path_join (artifacts_dir ?a0) ''preview_latest.jpg''\<rparr>"
  have "audit_history w audits uuid4 now dir sid target opts = ?a0 # run w ?r ?a0"
    using Inr
    by (simp add: audit_history_def create_audit_def Let_def run_audit_async_def get_audit_def
          AuditRunner_init_def)
  moreover have "base_domain ?r = netloc parsed" by simp
  ultimately show ?thesis using Inr by blast
qed

lemma audit_history_not_Nil: "audit_history w audits uuid4 now dir sid target opts \<noteq> []"
  using audit_history_shape [of w audits uuid4 now dir sid target opts] by auto

lemma last_run_cases:
  "status (last (run w r a)) = ERROR \<and> finished_at (last (run w r a)) = finished_at a
   \<or> status (last (run w r a)) = DONE \<and> finished_at (last (run w r a)) = Some (utcnow w)"
proof (cases rule: ctx_page_cases [of w "session_id a"])
  case (ctx e)
  then have "create_authenticated_context w (session_id a) = Inl e
      \<or> (\<exists>c. create_authenticated_context w (session_id a) = Inr c) \<and> new_page w = Inl e"
    by simp
  from last_run_fatal [OF this] show ?thesis by simp
next
  case (page c e)
  then have "create_authenticated_context w (session_id a) = Inl e
      \<or> (\<exists>c. create_authenticated_context w (session_id a) = Inr c) \<and> new_page w = Inl e"
    by simp
  from last_run_fatal [OF this] show ?thesis by simp
next
  case (through c p)
  from last_run_through [OF this] show ?thesis by simp
qed

lemma run_not_Nil: "run w r a \<noteq> []"
proof (cases rule: ctx_page_cases [of w "session_id a"])
  case (ctx e)
  then have "create_authenticated_context w (session_id a) = Inl e
      \<or> (\<exists>c. create_authenticated_context w (session_id a) = Inr c) \<and> new_page w = Inl e"
    by simp
  then obtain s1 e2 where
    "run w r a = [a\<lparr>status := RUNNING\<rparr>, s1, s1\<lparr>status := ERROR, error_message := Some e\<rparr>, e2]"
    by (rule run_fatal)
  then show ?thesis by simp
next
  case (page c e)
  then have "create_authenticated_context w (session_id a) = Inl e
      \<or> (\<exists>c. create_authenticated_context w (session_id a) = Inr c) \<and> new_page w = Inl e"
    by simp
  then obtain s1 e2 where
    "run w r a = [a\<lparr>status := RUNNING\<rparr>, s1, s1\<lparr>status := ERROR, error_message := Some e\<rparr>, e2]"
    by (rule run_fatal)
  then show ?thesis by simp
next
  case (through c p)
  then obtain s1 d2 where "run w r a = [a\<lparr>status := RUNNING\<rparr>, s1] @ fst (run_phases w r s1) @
       [(final s1 (fst (run_phases w r s1)))\<lparr>status := DONE, finished_at := Some (utcnow w)\<rparr>, d2]"
    by (rule run_through)
  then show ?thesis by simp
qed

text \<open>
  Claim C2, amended. At every moment of the life of an audit, \<open>finished_at\<close> is set if
  and only if the status is \<open>done\<close>: it is never set while the status is \<open>queued\<close> or
  \<open>running\<close>, a run that completes ends \<open>done\<close> with \<open>finished_at\<close> set to the clock
  reading, and a run that an uncaught failure aborts ends in \<open>error\<close> with
  \<open>finished_at\<close> still unset.
\<close>

theorem finished_at_iff_done:
  "(\<forall>s \<in> set (audit_history w audits uuid4 now dir sid target opts).
       (finished_at s \<noteq> None \<longleftrightarrow> status s = DONE))
   \<and> (status (last (audit_history w audits uuid4 now dir sid target opts)) = DONE \<longrightarrow>
        finished_at (last (audit_history w audits uuid4 now dir sid target opts)) = Some (utcnow w))
   \<and> (status (last (audit_history w audits uuid4 now dir sid target opts)) = ERROR \<longrightarrow>
        finished_at (last (audit_history w audits uuid4 now dir sid target opts)) = None)"
proof -
  let ?a0 = "fst (create_audit audits uuid4 now dir sid target opts)"
  let ?H = "audit_history w audits uuid4 now dir sid target opts"
  note f = create_audit_fields [of audits uuid4 now dir sid target opts]
  from audit_history_shape [of w audits uuid4 now dir sid target opts]
  show ?thesis
  proof (elim disjE exE conjE)
    assume "?H = [?a0]"
    then show ?thesis using f by simp
  next
    fix r parsed assume H: "?H = ?a0 # run w r ?a0"
    have inv: "\<forall>s \<in> set (run w r ?a0). (finished_at s \<noteq> None \<longleftrightarrow> status s = DONE)"
      using f(2) by (rule run_finished_at)
    have l: "last ?H = last (run w r ?a0)" using H run_not_Nil by simp
    from last_run_cases [of w r ?a0] show ?thesis
      using inv f by (auto simp: H l)
  qed
qed

text \<open>
  Claim C2, amended, at the example site: completed in one world, aborted in another.
\<close>

theorem finished_at_iff_done_witness:
  "status (last (example_history example_world one_page_options)) = DONE
   \<and> finished_at (last (example_history example_world one_page_options)) = Some 1000000
   \<and> status (last (example_history no_page_world example_options)) = ERROR
   \<and> finished_at (last (example_history no_page_world example_options)) = None"
proof -
  have e1: "status (last (example_history example_world one_page_options)) = DONE"
    by code_simp
  have e2: "status (last (example_history no_page_world example_options)) = ERROR"
    by code_simp
  have u: "utcnow example_world = 1000000" by (simp add: example_world_def)
  show ?thesis
    using e1 e2 u
      finished_at_iff_done [of example_world Map.empty "''audit-1''" 0 "''./artifacts''"
        "''session-1''" example_target one_page_options]
      finished_at_iff_done [of no_page_world Map.empty "''audit-1''" 0 "''./artifacts''"
        "''session-1''" example_target example_options]
    by (simp add: example_history_def)
qed

text \<open>
  Claim C2 as stated says that \<open>finished_at\<close> is set whenever the status is \<open>done\<close> or
  \<open>error\<close>. It is not: when the authenticated context cannot be made, the audit of the
  example site ends in \<open>error\<close> with \<open>finished_at\<close> unset; the handler of \<open>run\<close> assigns
  the status and the error message only.
\<close>

theorem finished_at_unset_after_error:
  "status (last (example_history no_context_world example_options)) = ERROR
   \<and> finished_at (last (example_history no_context_world example_options)) = None"
  by code_simp

text \<open>
  Claim C3 at the example site: in the world where everything but the context and the
  page fails the run ends \<open>done\<close>; without the context, and without the page, it ends
  in \<open>error\<close>.
\<close>

theorem run_fatal_only_without_context_or_page_witness:
  "status (last (run failing_world example_runner
      example_audit)) = DONE
   \<and> status (last (run no_context_world example_runner
      example_audit)) = ERROR
   \<and> error_message (last (run no_context_world example_runner
      example_audit))
       = Some ''Session is not authenticated''
   \<and> percent (progress (last (run no_page_world example_runner
      example_audit))) = 0"
  using
    run_fatal_only_without_context_or_page [of failing_world
      example_runner
      example_audit]
    run_fatal_only_without_context_or_page [of no_context_world
      example_runner
      example_audit]
    run_fatal_only_without_context_or_page [of no_page_world
      example_runner
      example_audit]
  by (simp add: failing_world_def no_context_world_def no_page_world_def example_world_def)

section \<open>The verdict of a page audit\<close>

lemma ui_flows_audit_page:
  assumes goto: "goto_page w u = Inr response" and content: "page_content w u = Inr content"
  shows "\<exists>shot. ui_flows (final a (audit_page w r u a)) = ui_flows a @
           [\<lparr>UIFlowResult.page_url = u,
             UIFlowResult.status = fst (page_verdict content response),
             notes' = snd (page_verdict content response),
             screenshot_path = shot,
             load_time_ms = Some (load_time_page w u)\<rparr>]"
proof -
  note cap = capture_view [of ui_flows, simplified]
  note disc = discover_links_view [of ui_flows, simplified]
  note shot = take_screenshot_view [of ui_flows, simplified]
  have nts: "append_interaction_notes nt (if check_ui_flows (options a) then probe_safe_interactions w u else None) = nt"
    for nt by (simp add: append_interaction_notes_def check_ui_flows_def)
  show ?thesis
    using goto content
    unfolding audit_page_def Let_def split_beta
    by (simp add: cap disc shot nts split del: if_split)
qed

text \<open>
  Claim C8. When the navigation to a page and the reading of its content succeed, the
  page audit appends one UIFlowResult for the page. Content whose trimmed length is
  below 100 characters gives status \<open>error\<close> with the notes \<open>Blank or nearly empty
  page\<close>, whatever the content says and whatever the HTTP status; content of trimmed
  length at least 100 in which the error-phrase expression finds a match, as it does
  when the content holds the eighth phrase of \<open>ERROR_PATTERNS\<close> in any letter case,
  gives status \<open>warning\<close> with the notes \<open>Page contains error patterns\<close>, whatever the
  HTTP status; only otherwise the HTTP status decides: \<open>error\<close> from 400 on, else \<open>ok\<close>.
\<close>

theorem audit_page_verdict:
  assumes "goto_page w u = Inr response" and "page_content w u = Inr content"
  shows "length (ui_flows (final a (audit_page w r u a))) = length (ui_flows a) + 1
    \<and> UIFlowResult.page_url (last (ui_flows (final a (audit_page w r u a)))) = u
    \<and> (len (strip content) < 100 \<longrightarrow>
          UIFlowResult.status (last (ui_flows (final a (audit_page w r u a)))) = ''error''
        \<and> notes' (last (ui_flows (final a (audit_page w r u a)))) = Some ''Blank or nearly empty page'')
    \<and> (len (strip content) \<ge> 100 \<and> ERROR_REGEX_search content \<longrightarrow>
          UIFlowResult.status (last (ui_flows (final a (audit_page w r u a)))) = ''warning''
        \<and> notes' (last (ui_flows (final a (audit_page w r u a)))) = Some ''Page contains error patterns'')
    \<and> (len (strip content) \<ge> 100 \<and> \<not> ERROR_REGEX_search content \<longrightarrow>
          (UIFlowResult.status (last (ui_flows (final a (audit_page w r u a)))),
           notes' (last (ui_flows (final a (audit_page w r u a)))))
          = (case response of
               Some code \<Rightarrow> if code \<ge> 400 then (''error'', Some (''HTTP '' @ str_int code))
                            else (''ok'', None)
             | None \<Rightarrow> (''ok'', None)))
    \<and> (contains (lower content) ''oops'' \<longrightarrow> ERROR_REGEX_search content)"
proof -
  from ui_flows_audit_page [OF assms, of a r] obtain shot where
    "ui_flows (final a (audit_page w r u a)) = ui_flows a @
           [\<lparr>UIFlowResult.page_url = u,
             UIFlowResult.status = fst (page_verdict content response),
             notes' = snd (page_verdict content response),
             screenshot_path = shot,
             load_time_ms = Some (load_time_page w u)\<rparr>]"
    by blast
  then have l: "length (ui_flows (final a (audit_page w r u a))) = length (ui_flows a) + 1"
    and p: "UIFlowResult.page_url (last (ui_flows (final a (audit_page w r u a)))) = u"
    and s: "UIFlowResult.status (last (ui_flows (final a (audit_page w r u a)))) = fst (page_verdict content response)"
    and n: "notes' (last (ui_flows (final a (audit_page w r u a)))) = snd (page_verdict content response)"
    by simp_all
  have phrase: "contains (lower content) ''oops'' \<longrightarrow> ERROR_REGEX_search content"
    by (simp add: ERROR_REGEX_search_def ERROR_PATTERNS_def)
  show ?thesis
    unfolding s n
    using l p phrase
    by (simp add: page_verdict_def Let_def split: option.split)
qed


text \<open>
  Claim C8 at the two example renderings, both answered with HTTP status 500: 99
  trimmed characters give the blank-page error, 100 characters with an error phrase
  give the warning.
\<close>

theorem audit_page_verdict_witness:
  "len (strip example_page_99) = 99
   \<and> UIFlowResult.status (last (ui_flows (final example_audit
         (audit_page (verdict_world example_page_99 500) example_runner
            ''https://example.test/about'' example_audit)))) = ''error''
   \<and> notes' (last (ui_flows (final example_audit
         (audit_page (verdict_world example_page_99 500) example_runner
            ''https://example.test/about'' example_audit)))) = Some ''Blank or nearly empty page''
   \<and> len (strip example_page_100) = 100
   \<and> UIFlowResult.status (last (ui_flows (final example_audit
         (audit_page (verdict_world example_page_100 500) example_runner
            ''https://example.test/about'' example_audit)))) = ''warning''
   \<and> notes' (last (ui_flows (final example_audit
         (audit_page (verdict_world example_page_100 500) example_runner
            ''https://example.test/about'' example_audit)))) = Some ''Page contains error patterns''"
proof -
  have l99: "len (strip example_page_99) = 99" by code_simp
  have l100: "len (strip example_page_100) = 100" by code_simp
  have found: "ERROR_REGEX_search example_page_100" by code_simp
  have w99: "goto_page (verdict_world example_page_99 500) ''https://example.test/about'' = Inr (Some 500)"
    "page_content (verdict_world example_page_99 500) ''https://example.test/about'' = Inr example_page_99"
    by (simp_all add: verdict_world_def example_world_def)
  have w100: "goto_page (verdict_world example_page_100 500) ''https://example.test/about'' = Inr (Some 500)"
    "page_content (verdict_world example_page_100 500) ''https://example.test/about'' = Inr example_page_100"
    by (simp_all add: verdict_world_def example_world_def)
  show ?thesis
    using l99 l100 found
      audit_page_verdict [OF w99, of example_audit example_runner]
      audit_page_verdict [OF w100, of example_audit example_runner]
    by simp
qed

end
